theory Spec2Isabelle
  imports Complex_Main "HOL-Library.Sublist"
begin

section \<open>Strings of the host language\<close>

text \<open>
  A text is the list of its code units. The model covers texts whose code units are below
  256, so a code unit is a \<^typ>\<open>char\<close>. In that range the white space of the host language
  (the class \<^verbatim>\<open>\s\<close> of its patterns, which is also what \<^verbatim>\<open>trim\<close> removes) is tab, line feed,
  vertical tab, form feed, carriage return, space and no-break space; the line terminators,
  which the pattern \<^verbatim>\<open>.\<close> refuses, are line feed and carriage return.
\<close>

definition is_space :: "char \<Rightarrow> bool" where
  "is_space c = (c = CHR 0x09 \<or> c = CHR 0x0A \<or> c = CHR 0x0B \<or> c = CHR 0x0C \<or> c = CHR 0x0D
     \<or> c = CHR 0x20 \<or> c = CHR 0xA0)"

definition is_line_terminator :: "char \<Rightarrow> bool" where
  "is_line_terminator c = (c = CHR 0x0A \<or> c = CHR 0x0D)"

definition is_alnum :: "char \<Rightarrow> bool" where
  "is_alnum c = (let n = (of_char c :: nat) in
     (97 \<le> n \<and> n \<le> 122) \<or> (65 \<le> n \<and> n \<le> 90) \<or> (48 \<le> n \<and> n \<le> 57))"

definition trim :: "string \<Rightarrow> string" where
  "trim s = rev (dropWhile is_space (rev (dropWhile is_space s)))"

definition startsWith :: "string \<Rightarrow> string \<Rightarrow> bool" where
  "startsWith s p = (take (length p) s = p)"

definition endsWith :: "string \<Rightarrow> string \<Rightarrow> bool" where
  "endsWith s p = (length p \<le> length s \<and> drop (length s - length p) s = p)"

text \<open>\<^verbatim>\<open>s.slice(a, b)\<close>: a negative index counts from the end, both are clamped to the text.\<close>

definition slice :: "string \<Rightarrow> int \<Rightarrow> int \<Rightarrow> string" where
  "slice s a b =
     (let n = int (length s);
          from = (if a < 0 then max (n + a) 0 else min a n);
          to = (if b < 0 then max (n + b) 0 else min b n)
      in take (nat (to - from)) (drop (nat from) s))"

definition slice_from :: "string \<Rightarrow> int \<Rightarrow> string" where
  "slice_from s a = slice s a (int (length s))"

text \<open>\<^verbatim>\<open>content.split('\n')\<close>: the pieces between line feeds; an empty text has one empty piece.\<close>

fun split_nl :: "string \<Rightarrow> string list" where
  "split_nl [] = [[]]"
| "split_nl (c # cs) =
     (if c = CHR 0x0A then [] # split_nl cs
      else (case split_nl cs of [] \<Rightarrow> [[c]] | l # ls \<Rightarrow> (c # l) # ls))"

text \<open>A number in a template literal is written in decimal.\<close>

definition digit_char :: "nat \<Rightarrow> char" where
  "digit_char n = char_of (48 + n)"

fun number_to_string :: "nat \<Rightarrow> string" where
  "number_to_string n =
     (if n < 10 then [digit_char n] else number_to_string (n div 10) @ [digit_char (n mod 10)])"

declare number_to_string.simps [simp del]

section \<open>The data model (types.ts)\<close>

datatype direction = Outgoing | Incoming | Undirected | Bidirectional

record relationship =
  rel_id :: string
  sourceFile :: string
  targetFile :: string
  direction :: direction
  label :: "string option"
  line :: nat

section \<open>The descriptor parser, double-delimiter form\<close>

definition generateId :: "string \<Rightarrow> nat \<Rightarrow> nat \<Rightarrow> string" where
  "generateId source lineNo index =
     source @ '':'' @ number_to_string lineNo @ '':'' @ number_to_string index"

text \<open>The three pattern tests of \<^verbatim>\<open>parseDescriptor\<close>:
  \<^verbatim>\<open>/^[-+]+$/\<close>, \<^verbatim>\<open>/^-+$/\<close> and \<^verbatim>\<open>/[a-zA-Z0-9]/\<close>.\<close>

definition only_dash_plus :: "string \<Rightarrow> bool" where
  "only_dash_plus d = (d \<noteq> [] \<and> list_all (\<lambda>c. c = CHR ''-'' \<or> c = CHR ''+'') d)"

definition only_dash :: "string \<Rightarrow> bool" where
  "only_dash d = (d \<noteq> [] \<and> list_all (\<lambda>c. c = CHR ''-'') d)"

definition has_alnum :: "string \<Rightarrow> bool" where
  "has_alnum d = list_ex is_alnum d"

definition parseDescriptor :: "string \<Rightarrow> (direction \<times> string option) option" where
  "parseDescriptor descriptor =
     (let d = trim descriptor in
      if length d = 0 then None
      else if d = ''-+'' then Some (Outgoing, None)
      else if d = ''+-'' then Some (Incoming, None)
      else if d = ''++'' then Some (Bidirectional, None)
      else if (only_dash_plus d \<and> d \<noteq> ''-+'' \<and> d \<noteq> ''+-'' \<and> d \<noteq> ''++'') \<and> only_dash d
        then None
      else if startsWith d ''+'' \<and> endsWith d ''+'' \<and> length d > 2 then
        (let lab = trim (slice d 1 (- 1)) in
         if length lab = 0 then None else Some (Bidirectional, Some lab))
      else if startsWith d ''+'' \<and> \<not> endsWith d ''+'' then
        (let lab = trim (slice_from d 1) in
         if length lab = 0 then None else Some (Incoming, Some lab))
      else if endsWith d ''+'' \<and> \<not> startsWith d ''+'' then
        (let lab = trim (slice d 0 (- 1)) in
         if length lab = 0 then None else Some (Outgoing, Some lab))
      else if has_alnum d then Some (Undirected, Some d)
      else None)"


text \<open>
  The grammar in the words of the specification, for a descriptor \<open>d\<close> already trimmed:
  the three bare arrows; then a leading and a trailing plus around a label; then a leading
  plus alone; then a trailing plus alone; then any text with a letter or digit; everything
  else is malformed. A label that trims to nothing makes the descriptor malformed.
\<close>

definition begins_plus :: "string \<Rightarrow> bool" where
  "begins_plus d = (case d of [] \<Rightarrow> False | c # cs \<Rightarrow> c = CHR ''+'')"

definition finishes_plus :: "string \<Rightarrow> bool" where
  "finishes_plus d = (d \<noteq> [] \<and> last d = CHR ''+'')"

definition labelled :: "direction \<Rightarrow> string \<Rightarrow> (direction \<times> string option) option" where
  "labelled dir text = (if text = [] then None else Some (dir, Some text))"

definition spec_classify :: "string \<Rightarrow> (direction \<times> string option) option" where
  "spec_classify d =
     (if d = ''-+'' then Some (Outgoing, None)
      else if d = ''+-'' then Some (Incoming, None)
      else if d = ''++'' then Some (Bidirectional, None)
      else if begins_plus d \<and> finishes_plus d \<and> length d > 2
        then labelled Bidirectional (trim (butlast (tl d)))
      else if begins_plus d \<and> \<not> finishes_plus d then labelled Incoming (trim (tl d))
      else if finishes_plus d \<and> \<not> begins_plus d then labelled Outgoing (trim (butlast d))
      else if filter is_alnum d \<noteq> [] then Some (Undirected, Some d)
      else None)"

text \<open>The number a decimal text stands for, read digit by digit.\<close>

definition digits_value :: "string \<Rightarrow> nat" where
  "digits_value s = foldl (\<lambda>acc c. 10 * acc + (of_char c - 48)) 0 s"

section \<open>The relationship pattern\<close>

text \<open>
  The pattern engine of the host language matches by backtracking. Each piece of a pattern
  is a function of the rest of the pattern (the continuation \<open>k\<close>) and of the text still
  to be read: a greedy star tries the longest run first and gives characters back one at a
  time, a lazy star tries the empty run first and takes one more character at a time.
\<close>

fun lit :: "string \<Rightarrow> (string \<Rightarrow> 'a option) \<Rightarrow> string \<Rightarrow> 'a option" where
  "lit [] k s = k s"
| "lit (a # as) k [] = None"
| "lit (a # as) k (c # cs) = (if a = c then lit as k cs else None)"

fun one :: "(char \<Rightarrow> bool) \<Rightarrow> (string \<Rightarrow> 'a option) \<Rightarrow> string \<Rightarrow> 'a option" where
  "one p k [] = None"
| "one p k (c # cs) = (if p c then k cs else None)"

fun many_greedy :: "(char \<Rightarrow> bool) \<Rightarrow> (string \<Rightarrow> 'a option) \<Rightarrow> string \<Rightarrow> 'a option" where
  "many_greedy p k [] = k []"
| "many_greedy p k (c # cs) =
     (if p c then (case many_greedy p k cs of Some r \<Rightarrow> Some r | None \<Rightarrow> k (c # cs))
      else k (c # cs))"

fun many_lazy :: "(char \<Rightarrow> bool) \<Rightarrow> (string \<Rightarrow> 'a option) \<Rightarrow> string \<Rightarrow> 'a option" where
  "many_lazy p k [] = k []"
| "many_lazy p k (c # cs) =
     (case k (c # cs) of Some r \<Rightarrow> Some r
      | None \<Rightarrow> if p c then many_lazy p k cs else None)"

text \<open>The text read between two points of a match, each given by what was still unread.\<close>

definition between :: "string \<Rightarrow> string \<Rightarrow> string" where
  "between s t = take (length s - length t) s"

definition not_gt :: "char \<Rightarrow> bool" where
  "not_gt c = (c \<noteq> CHR ''>'')"

definition is_dot :: "char \<Rightarrow> bool" where
  "is_dot c = (\<not> is_line_terminator c)"

definition plus_or_dash :: "char \<Rightarrow> bool" where
  "plus_or_dash c = (c = CHR ''+'' \<or> c = CHR ''-'')"

text \<open>
  \<^verbatim>\<open>/<<([^>]*?)>>\[\[\s*(.*?)\s*\]\]/\<close> tried at the start of \<open>s\<close>: the two captured groups
  and the text after the match.
\<close>

definition regex_double :: "string \<Rightarrow> (string \<times> string \<times> string) option" where
  "regex_double s =
     lit ''<<'' (\<lambda>s1.
       many_lazy not_gt (\<lambda>s2.
         lit ''>>[['' (\<lambda>s3.
           many_greedy is_space (\<lambda>s4.
             many_lazy is_dot (\<lambda>s5.
               many_greedy is_space (\<lambda>s6.
                 lit '']]'' (\<lambda>s7. Some (between s1 s2, between s4 s5, s7)) s6) s5) s4) s3) s2) s1) s"

text \<open>\<^verbatim>\<open>/<([+\-][^>]*?[+\-])>\s*\[\[\s*(.*?)\s*\]\]/\<close>, the single-delimiter pattern.\<close>

definition regex_single :: "string \<Rightarrow> (string \<times> string \<times> string) option" where
  "regex_single s =
     lit ''<'' (\<lambda>s1.
       one plus_or_dash (
         many_lazy not_gt (
           one plus_or_dash (\<lambda>s2.
             lit ''>'' (
               many_greedy is_space (
                 lit ''[['' (
                   many_greedy is_space (\<lambda>s4.
                     many_lazy is_dot (\<lambda>s5.
                       many_greedy is_space (\<lambda>s6.
                         lit '']]'' (\<lambda>s7. Some (between s1 s2, between s4 s5, s7)) s6) s5) s4)))) s2))) s1) s"

record regex_match =
  m_index :: nat
  m_descriptor :: string
  m_target :: string

lemma lit_Some: "lit p k s = Some r \<Longrightarrow> \<exists>t. s = p @ t \<and> k t = Some r"
  by (induction p k s rule: lit.induct) (auto split: if_splits)

lemma one_Some: "one p k s = Some r \<Longrightarrow> \<exists>c t. s = c # t \<and> p c \<and> k t = Some r"
  by (cases s) (auto split: if_splits)

lemma many_greedy_Some:
  "many_greedy p k s = Some r \<Longrightarrow> \<exists>u t. s = u @ t \<and> list_all p u \<and> k t = Some r"
proof (induction s)
  case Nil
  then show ?case by simp
next
  case (Cons c cs)
  show ?case
  proof (cases "p c \<and> many_greedy p k cs = Some r")
    case True
    with Cons.IH obtain u t where "cs = u @ t" "list_all p u" "k t = Some r"
      by blast
    with True have "c # cs = (c # u) @ t \<and> list_all p (c # u) \<and> k t = Some r"
      by simp
    then show ?thesis by blast
  next
    case False
    with Cons.prems have "k (c # cs) = Some r"
      by (auto split: if_splits option.splits)
    then have "c # cs = [] @ (c # cs) \<and> list_all p [] \<and> k (c # cs) = Some r"
      by simp
    then show ?thesis by blast
  qed
qed

lemma many_lazy_Some:
  "many_lazy p k s = Some r \<Longrightarrow> \<exists>u t. s = u @ t \<and> list_all p u \<and> k t = Some r"
proof (induction s)
  case Nil
  then show ?case by simp
next
  case (Cons c cs)
  show ?case
  proof (cases "k (c # cs) = Some r")
    case True
    then have "c # cs = [] @ (c # cs) \<and> list_all p [] \<and> k (c # cs) = Some r"
      by simp
    then show ?thesis by blast
  next
    case False
    with Cons.prems have pc: "p c" and rec: "many_lazy p k cs = Some r"
      by (auto split: if_splits option.splits)
    from Cons.IH [OF rec] obtain u t where "cs = u @ t" "list_all p u" "k t = Some r"
      by blast
    with pc have "c # cs = (c # u) @ t \<and> list_all p (c # u) \<and> k t = Some r"
      by simp
    then show ?thesis by blast
  qed
qed

text \<open>A match of either pattern reads at least its opening delimiter, so the scan below
  always moves forward.\<close>

lemma regex_double_consumes:
  assumes "regex_double s = Some (g1, g2, rest)"
  shows "length rest < length s"
proof -
  from assms obtain s1 where s1: "s = ''<<'' @ s1"
    and k1: "many_lazy not_gt (\<lambda>s2.
         lit ''>>[['' (\<lambda>s3.
           many_greedy is_space (\<lambda>s4.
             many_lazy is_dot (\<lambda>s5.
               many_greedy is_space (\<lambda>s6.
                 lit '']]'' (\<lambda>s7. Some (between s1 s2, between s4 s5, s7)) s6) s5) s4) s3) s2) s1
         = Some (g1, g2, rest)"
    unfolding regex_double_def by (blast dest: lit_Some)
  from many_lazy_Some [OF k1] obtain u2 s2 where s2: "s1 = u2 @ s2"
    and k2: "lit ''>>[['' (\<lambda>s3.
           many_greedy is_space (\<lambda>s4.
             many_lazy is_dot (\<lambda>s5.
               many_greedy is_space (\<lambda>s6.
                 lit '']]'' (\<lambda>s7. Some (between s1 s2, between s4 s5, s7)) s6) s5) s4) s3) s2
         = Some (g1, g2, rest)"
    by blast
  from lit_Some [OF k2] obtain s3 where s3: "s2 = ''>>[['' @ s3"
    and k3: "many_greedy is_space (\<lambda>s4.
             many_lazy is_dot (\<lambda>s5.
               many_greedy is_space (\<lambda>s6.
                 lit '']]'' (\<lambda>s7. Some (between s1 s2, between s4 s5, s7)) s6) s5) s4) s3
         = Some (g1, g2, rest)"
    by blast
  from many_greedy_Some [OF k3] obtain u4 s4 where s4: "s3 = u4 @ s4"
    and k4: "many_lazy is_dot (\<lambda>s5.
               many_greedy is_space (\<lambda>s6.
                 lit '']]'' (\<lambda>s7. Some (between s1 s2, between s4 s5, s7)) s6) s5) s4
         = Some (g1, g2, rest)"
    by blast
  from many_lazy_Some [OF k4] obtain u5 s5 where s5: "s4 = u5 @ s5"
    and k5: "many_greedy is_space (\<lambda>s6.
                 lit '']]'' (\<lambda>s7. Some (between s1 s2, between s4 s5, s7)) s6) s5
         = Some (g1, g2, rest)"
    by blast
  from many_greedy_Some [OF k5] obtain u6 s6 where s6: "s5 = u6 @ s6"
    and k6: "lit '']]'' (\<lambda>s7. Some (between s1 s2, between s4 s5, s7)) s6 = Some (g1, g2, rest)"
    by blast
  from lit_Some [OF k6] have "s6 = '']]'' @ rest"
    by auto
  with s1 s2 s3 s4 s5 s6 show ?thesis by simp
qed

lemma regex_single_consumes:
  assumes "regex_single s = Some (g1, g2, rest)"
  shows "length rest < length s"
proof -
  from assms obtain s1 where s1: "s = ''<'' @ s1"
    and k1: "one plus_or_dash (
         many_lazy not_gt (
           one plus_or_dash (\<lambda>s2.
             lit ''>'' (
               many_greedy is_space (
                 lit ''[['' (
                   many_greedy is_space (\<lambda>s4.
                     many_lazy is_dot (\<lambda>s5.
                       many_greedy is_space (\<lambda>s6.
                         lit '']]'' (\<lambda>s7. Some (between s1 s2, between s4 s5, s7)) s6) s5) s4)))) s2))) s1
         = Some (g1, g2, rest)"
    unfolding regex_single_def by (blast dest: lit_Some)
  from one_Some [OF k1] obtain c1 t1 where t1: "s1 = c1 # t1"
    and k1': "many_lazy not_gt (
           one plus_or_dash (\<lambda>s2.
             lit ''>'' (
               many_greedy is_space (
                 lit ''[['' (
                   many_greedy is_space (\<lambda>s4.
                     many_lazy is_dot (\<lambda>s5.
                       many_greedy is_space (\<lambda>s6.
                         lit '']]'' (\<lambda>s7. Some (between s1 s2, between s4 s5, s7)) s6) s5) s4)))) s2)) t1
         = Some (g1, g2, rest)"
    by blast
  from many_lazy_Some [OF k1'] obtain u2 t2 where t2: "t1 = u2 @ t2"
    and k2: "one plus_or_dash (\<lambda>s2.
             lit ''>'' (
               many_greedy is_space (
                 lit ''[['' (
                   many_greedy is_space (\<lambda>s4.
                     many_lazy is_dot (\<lambda>s5.
                       many_greedy is_space (\<lambda>s6.
                         lit '']]'' (\<lambda>s7. Some (between s1 s2, between s4 s5, s7)) s6) s5) s4)))) s2) t2
         = Some (g1, g2, rest)"
    by blast
  from one_Some [OF k2] obtain c2 s2 where s2: "t2 = c2 # s2"
    and k2': "lit ''>'' (
               many_greedy is_space (
                 lit ''[['' (
                   many_greedy is_space (\<lambda>s4.
                     many_lazy is_dot (\<lambda>s5.
                       many_greedy is_space (\<lambda>s6.
                         lit '']]'' (\<lambda>s7. Some (between s1 s2, between s4 s5, s7)) s6) s5) s4)))) s2
         = Some (g1, g2, rest)"
    by blast
  from lit_Some [OF k2'] obtain t3 where t3: "s2 = ''>'' @ t3"
    and k3: "many_greedy is_space (
                 lit ''[['' (
                   many_greedy is_space (\<lambda>s4.
                     many_lazy is_dot (\<lambda>s5.
                       many_greedy is_space (\<lambda>s6.
                         lit '']]'' (\<lambda>s7. Some (between s1 s2, between s4 s5, s7)) s6) s5) s4))) t3
         = Some (g1, g2, rest)"
    by blast
  from many_greedy_Some [OF k3] obtain u4 t4 where t4: "t3 = u4 @ t4"
    and k4: "lit ''[['' (
                   many_greedy is_space (\<lambda>s4.
                     many_lazy is_dot (\<lambda>s5.
                       many_greedy is_space (\<lambda>s6.
                         lit '']]'' (\<lambda>s7. Some (between s1 s2, between s4 s5, s7)) s6) s5) s4)) t4
         = Some (g1, g2, rest)"
    by blast
  from lit_Some [OF k4] obtain t5 where t5: "t4 = ''[['' @ t5"
    and k5: "many_greedy is_space (\<lambda>s4.
                     many_lazy is_dot (\<lambda>s5.
                       many_greedy is_space (\<lambda>s6.
                         lit '']]'' (\<lambda>s7. Some (between s1 s2, between s4 s5, s7)) s6) s5) s4) t5
         = Some (g1, g2, rest)"
    by blast
  from many_greedy_Some [OF k5] obtain u6 s4 where s4: "t5 = u6 @ s4"
    and k6: "many_lazy is_dot (\<lambda>s5.
                       many_greedy is_space (\<lambda>s6.
                         lit '']]'' (\<lambda>s7. Some (between s1 s2, between s4 s5, s7)) s6) s5) s4
         = Some (g1, g2, rest)"
    by blast
  from many_lazy_Some [OF k6] obtain u7 s5 where s5: "s4 = u7 @ s5"
    and k7: "many_greedy is_space (\<lambda>s6.
                         lit '']]'' (\<lambda>s7. Some (between s1 s2, between s4 s5, s7)) s6) s5
         = Some (g1, g2, rest)"
    by blast
  from many_greedy_Some [OF k7] obtain u8 s6 where s6: "s5 = u8 @ s6"
    and k8: "lit '']]'' (\<lambda>s7. Some (between s1 s2, between s4 s5, s7)) s6 = Some (g1, g2, rest)"
    by blast
  from lit_Some [OF k8] have "s6 = '']]'' @ rest"
    by auto
  with s1 t1 t2 s2 t3 t4 t5 s4 s5 s6 show ?thesis by simp
qed

text \<open>
  The loop \<^verbatim>\<open>while ((match = RELATIONSHIP_REGEX.exec(content)) !== null)\<close> of a global
  pattern: the leftmost match at or after the cursor, then the cursor moves to its end.
  \<open>pos\<close> is the offset of \<open>s\<close> in the content.
\<close>

function exec_double :: "nat \<Rightarrow> string \<Rightarrow> regex_match list" where
  "exec_double pos s =
     (case regex_double s of
        Some (g1, g2, rest) \<Rightarrow>
          \<lparr>m_index = pos, m_descriptor = g1, m_target = g2\<rparr>
            # exec_double (pos + (length s - length rest)) rest
      | None \<Rightarrow> (case s of [] \<Rightarrow> [] | c # cs \<Rightarrow> exec_double (Suc pos) cs))"
  by pat_completeness auto
termination
  by (relation "measure (\<lambda>(pos, s). length s)") (auto dest: regex_double_consumes)

function exec_single :: "nat \<Rightarrow> string \<Rightarrow> regex_match list" where
  "exec_single pos s =
     (case regex_single s of
        Some (g1, g2, rest) \<Rightarrow>
          \<lparr>m_index = pos, m_descriptor = g1, m_target = g2\<rparr>
            # exec_single (pos + (length s - length rest)) rest
      | None \<Rightarrow> (case s of [] \<Rightarrow> [] | c # cs \<Rightarrow> exec_single (Suc pos) cs))"
  by pat_completeness auto
termination
  by (relation "measure (\<lambda>(pos, s). length s)") (auto dest: regex_single_consumes)

declare exec_double.simps [simp del] exec_single.simps [simp del]


section \<open>parseRelationships\<close>

text \<open>The inner loop that finds the line of a match: the first line at whose end the running
  character count exceeds the offset of the match; 1 when the loop ends without a break.\<close>

fun line_loop :: "string list \<Rightarrow> nat \<Rightarrow> nat \<Rightarrow> nat \<Rightarrow> nat" where
  "line_loop [] i charCount matchPos = 1"
| "line_loop (l # ls) i charCount matchPos =
     (if charCount + (length l + 1) > matchPos then i + 1
      else line_loop ls (i + 1) (charCount + (length l + 1)) matchPos)"

definition line_number :: "string list \<Rightarrow> nat \<Rightarrow> nat" where
  "line_number lines matchPos = line_loop lines 0 0 matchPos"

text \<open>
  The body of the loop over the matches, the same text in both parser files; \<open>pd\<close> is the
  file's \<^verbatim>\<open>parseDescriptor\<close>. Every path through the body ends in \<^verbatim>\<open>matchIndex++\<close>.
\<close>

fun parse_loop ::
  "(string \<Rightarrow> (direction \<times> string option) option) \<Rightarrow> string \<Rightarrow> string list
     \<Rightarrow> regex_match list \<Rightarrow> nat \<Rightarrow> relationship list" where
  "parse_loop pd source lines [] matchIndex = []"
| "parse_loop pd source lines (m # ms) matchIndex =
     (let lineNumber = line_number lines (m_index m);
          target = trim (m_target m)
      in if length target = 0 then parse_loop pd source lines ms (matchIndex + 1)
         else (case pd (m_descriptor m) of
                 None \<Rightarrow> parse_loop pd source lines ms (matchIndex + 1)
               | Some (dir, lab) \<Rightarrow>
                   \<lparr>rel_id = generateId source lineNumber matchIndex,
                    sourceFile = source,
                    targetFile = target,
                    direction = dir,
                    label = lab,
                    line = lineNumber\<rparr>
                     # parse_loop pd source lines ms (matchIndex + 1)))"

definition parseRelationships :: "string \<Rightarrow> string \<Rightarrow> relationship list" where
  "parseRelationships content source =
     parse_loop parseDescriptor source (split_nl content) (exec_double 0 content) 0"

section \<open>The descriptor parser, single-delimiter form\<close>

definition parseDescriptor_single :: "string \<Rightarrow> (direction \<times> string option) option" where
  "parseDescriptor_single descriptor =
     (let d = trim descriptor in
      if length d < 2 then None
      else
        (let first = d ! 0; lst = d ! (length d - 1) in
         if (first \<noteq> CHR ''-'' \<and> first \<noteq> CHR ''+'') \<or> (lst \<noteq> CHR ''-'' \<and> lst \<noteq> CHR ''+'')
         then None
         else
           (let dir = (if first = CHR ''-'' \<and> lst = CHR ''+'' then Outgoing
                       else if first = CHR ''+'' \<and> lst = CHR ''-'' then Incoming
                       else if first = CHR ''+'' \<and> lst = CHR ''+'' then Bidirectional
                       else Undirected);
                labelText = (if length d > 2 then Some (trim (slice d 1 (- 1))) else None);
                lab = (case labelText of
                         None \<Rightarrow> None
                       | Some t \<Rightarrow> if length t > 0 then Some t else None)
            in Some (dir, lab))))"

definition parseRelationships_single :: "string \<Rightarrow> string \<Rightarrow> relationship list" where
  "parseRelationships_single content source =
     parse_loop parseDescriptor_single source (split_nl content) (exec_single 0 content) 0"

section \<open>The relationship index (relationship-index.ts)\<close>

text \<open>
  The index is a \<^verbatim>\<open>Map\<close> from source key to relationship list. A \<^verbatim>\<open>Map\<close> keeps its keys in
  insertion order and holds each key once: \<^verbatim>\<open>set\<close> on a key already present replaces the
  value where it stands, \<^verbatim>\<open>set\<close> on a new key appends, \<^verbatim>\<open>delete\<close> removes the key.
\<close>

type_synonym index = "(string \<times> relationship list) list"

definition map_get :: "index \<Rightarrow> string \<Rightarrow> relationship list option" where
  "map_get idx k = map_of idx k"

fun map_set :: "string \<Rightarrow> relationship list \<Rightarrow> index \<Rightarrow> index" where
  "map_set k v [] = [(k, v)]"
| "map_set k v ((k', v') # rest) =
     (if k' = k then (k, v) # rest else (k', v') # map_set k v rest)"

definition map_delete :: "string \<Rightarrow> index \<Rightarrow> index" where
  "map_delete k idx = filter (\<lambda>e. fst e \<noteq> k) idx"

text \<open>\<^verbatim>\<open>filename.replace(/\.md$/, '')\<close>: one trailing \<^verbatim>\<open>.md\<close> is removed.\<close>

definition stripExtension :: "string \<Rightarrow> string" where
  "stripExtension filename =
     (if endsWith filename ''.md'' then take (length filename - 3) filename else filename)"

text \<open>
  \<^verbatim>\<open>str.replace(pat, repl)\<close> with two texts replaces the first occurrence of \<open>pat\<close>, and
  reads \<open>repl\<close> as a template: \<^verbatim>\<open>$$\<close> is a dollar sign, \<^verbatim>\<open>$&\<close> the matched text,
  \<^verbatim>\<open>$`\<close> the text before the match and \<^verbatim>\<open>$'\<close> the text after it. With a text as the
  pattern there are no groups, so a dollar sign before anything else stands for itself.
\<close>

fun split_first :: "string \<Rightarrow> string \<Rightarrow> (string \<times> string) option" where
  "split_first pat [] = (if pat = [] then Some ([], []) else None)"
| "split_first pat (c # cs) =
     (if startsWith (c # cs) pat then Some ([], drop (length pat) (c # cs))
      else (case split_first pat cs of
              None \<Rightarrow> None
            | Some (pre, post) \<Rightarrow> Some (c # pre, post)))"

fun get_substitution :: "string \<Rightarrow> string \<Rightarrow> string \<Rightarrow> string \<Rightarrow> string" where
  "get_substitution matched pre post [] = []"
| "get_substitution matched pre post [c] = [c]"
| "get_substitution matched pre post (c # c' # r) =
     (if c = CHR ''$'' \<and> c' = CHR ''$'' then CHR ''$'' # get_substitution matched pre post r
      else if c = CHR ''$'' \<and> c' = CHR 0x60 then pre @ get_substitution matched pre post r
      else if c = CHR ''$'' \<and> c' = CHR ''&'' then matched @ get_substitution matched pre post r
      else if c = CHR ''$'' \<and> c' = CHR 0x27 then post @ get_substitution matched pre post r
      else c # get_substitution matched pre post (c' # r))"

definition replace :: "string \<Rightarrow> string \<Rightarrow> string \<Rightarrow> string" where
  "replace str pat repl =
     (case split_first pat str of
        None \<Rightarrow> str
      | Some (pre, post) \<Rightarrow> pre @ get_substitution pat pre post repl @ post)"

definition reindexFile :: "index \<Rightarrow> string \<Rightarrow> string \<Rightarrow> index" where
  "reindexFile idx filename content =
     (let sourceKey = stripExtension filename;
          parsed = parseRelationships content sourceKey
      in map_set sourceKey parsed idx)"

definition removeFile :: "index \<Rightarrow> string \<Rightarrow> index" where
  "removeFile idx filename = (let sourceKey = stripExtension filename in map_delete sourceKey idx)"

text \<open>The two halves of \<^verbatim>\<open>renameFile\<close>: the move of the source entry, then the loop over all
  entries that rewrites the targets. The loop sets only keys that are present, so it keeps
  the order of the keys.\<close>

definition rename_source :: "string \<Rightarrow> string \<Rightarrow> relationship \<Rightarrow> relationship" where
  "rename_source oldKey newKey r =
     r\<lparr>sourceFile := newKey, rel_id := replace (rel_id r) oldKey newKey\<rparr>"

definition rename_target :: "string \<Rightarrow> string \<Rightarrow> relationship \<Rightarrow> relationship" where
  "rename_target oldKey newKey r =
     (if targetFile r = oldKey then r\<lparr>targetFile := newKey\<rparr> else r)"

definition retarget_entry ::
  "string \<Rightarrow> string \<Rightarrow> string \<times> relationship list \<Rightarrow> string \<times> relationship list" where
  "retarget_entry oldKey newKey e =
     (let fileRels = snd e;
          changed = list_ex (\<lambda>r. targetFile r = oldKey) fileRels;
          updatedRels = map (rename_target oldKey newKey) fileRels
      in if changed then (fst e, updatedRels) else e)"

definition renameFile :: "index \<Rightarrow> string \<Rightarrow> string \<Rightarrow> index" where
  "renameFile idx oldName newName =
     (let oldKey = stripExtension oldName;
          newKey = stripExtension newName;
          moved = (case map_get idx oldKey of
                     None \<Rightarrow> idx
                   | Some rels \<Rightarrow>
                       map_set newKey (map (rename_source oldKey newKey) rels)
                         (map_delete oldKey idx))
      in map (retarget_entry oldKey newKey) moved)"

definition getAllRelationships :: "index \<Rightarrow> relationship list" where
  "getAllRelationships idx = concat (map snd idx)"

definition getRelationshipsForFile :: "index \<Rightarrow> string \<Rightarrow> relationship list" where
  "getRelationshipsForFile idx filename =
     (case map_get idx (stripExtension filename) of None \<Rightarrow> [] | Some rels \<Rightarrow> rels)"

text \<open>\<^verbatim>\<open>getAllNodes\<close> collects into a \<^verbatim>\<open>Set\<close>, which keeps the first occurrence of each name.\<close>

definition set_add :: "string \<Rightarrow> string list \<Rightarrow> string list" where
  "set_add x xs = (if x \<in> set xs then xs else xs @ [x])"

definition getAllNodes :: "index \<Rightarrow> string list" where
  "getAllNodes idx =
     fold (\<lambda>r nodeSet. set_add (targetFile r) (set_add (sourceFile r) nodeSet))
       (getAllRelationships idx) []"


section \<open>The graph model built by the renderer (graph-renderer.ts)\<close>

text \<open>
  A coordinate is a number or \<^verbatim>\<open>undefined\<close>. Numbers are modelled as reals, so the
  arithmetic of the seeding is exact here; the coordinates of a node that existed before are
  copied, not computed. \<^verbatim>\<open>Math.random()\<close> is a sequence \<open>rnd\<close> of numbers read in order.
\<close>

record graph_node =
  node_id :: string
  isGhost :: bool
  node_x :: "real option"
  node_y :: "real option"
  node_vx :: "real option"
  node_vy :: "real option"

record graph_link =
  link_source :: string
  link_target :: string
  link_relationship :: relationship
  curveOffset :: nat

record renderer =
  nodes :: "graph_node list"
  links :: "graph_link list"
  width :: real
  height :: real
  existingFiles :: "string set"
  labelFilter :: string

definition to_lower_char :: "char \<Rightarrow> char" where
  "to_lower_char c =
     (let n = (of_char c :: nat) in
      if (65 \<le> n \<and> n \<le> 90) \<or> (192 \<le> n \<and> n \<le> 222 \<and> n \<noteq> 215) then char_of (n + 32) else c)"

definition toLowerCase :: "string \<Rightarrow> string" where
  "toLowerCase s = map to_lower_char s"

fun includes_text :: "string \<Rightarrow> string \<Rightarrow> bool" where
  "includes_text [] sub = (sub = [])"
| "includes_text (c # cs) sub = (startsWith (c # cs) sub \<or> includes_text cs sub)"

definition filter_by_label :: "string \<Rightarrow> relationship list \<Rightarrow> relationship list" where
  "filter_by_label filterText relationships =
     (if trim filterText \<noteq> [] then
        (let flt = toLowerCase (trim filterText) in
         filter (\<lambda>r. case label r of
                        None \<Rightarrow> False
                      | Some l \<Rightarrow> l \<noteq> [] \<and> includes_text (toLowerCase l) flt) relationships)
      else relationships)"

definition node_names :: "string list \<Rightarrow> relationship list \<Rightarrow> string list" where
  "node_names nodeNames filtered =
     fold (\<lambda>r nodeSet. set_add (targetFile r) (set_add (sourceFile r) nodeSet)) filtered
       (fold set_add nodeNames [])"

definition old_node_map :: "graph_node list \<Rightarrow> string \<Rightarrow> graph_node option" where
  "old_node_map ns = fold (\<lambda>n m. m(node_id n \<mapsto> n)) ns Map.empty"

text \<open>\<^verbatim>\<open>existing?.x ?? seed\<close>: the seed, and with it a random number, is only computed when
  there is no previous node or its coordinate is undefined.\<close>

definition seed :: "real \<Rightarrow> real \<Rightarrow> real" where
  "seed extent r = extent / 2 + (r - 0.5) * 100"

fun make_nodes ::
  "(string \<Rightarrow> graph_node option) \<Rightarrow> string set \<Rightarrow> real \<Rightarrow> real \<Rightarrow> (nat \<Rightarrow> real) \<Rightarrow> nat
     \<Rightarrow> string list \<Rightarrow> graph_node list" where
  "make_nodes oldNodeMap existing w h rnd n [] = []"
| "make_nodes oldNodeMap existing w h rnd n (i # ids) =
     (let prev = oldNodeMap i;
          px = (case prev of None \<Rightarrow> None | Some e \<Rightarrow> node_x e);
          py = (case prev of None \<Rightarrow> None | Some e \<Rightarrow> node_y e);
          n1 = (case px of None \<Rightarrow> n + 1 | Some v \<Rightarrow> n);
          n2 = (case py of None \<Rightarrow> n1 + 1 | Some v \<Rightarrow> n1)
      in \<lparr>node_id = i,
          isGhost = (i \<notin> existing),
          node_x = Some (case px of None \<Rightarrow> seed w (rnd n) | Some v \<Rightarrow> v),
          node_y = Some (case py of None \<Rightarrow> seed h (rnd n1) | Some v \<Rightarrow> v),
          node_vx = (case prev of None \<Rightarrow> None | Some e \<Rightarrow> node_vx e),
          node_vy = (case prev of None \<Rightarrow> None | Some e \<Rightarrow> node_vy e)\<rparr>
           # make_nodes oldNodeMap existing w h rnd n2 ids)"

text \<open>The default \<^verbatim>\<open>sort()\<close> orders texts by their code units.\<close>

fun str_less :: "string \<Rightarrow> string \<Rightarrow> bool" where
  "str_less [] [] = False"
| "str_less [] (b # bs) = True"
| "str_less (a # as) [] = False"
| "str_less (a # as) (b # bs) =
     (if (of_char a :: nat) < of_char b then True
      else if (of_char b :: nat) < of_char a then False
      else str_less as bs)"

definition edge_key :: "relationship \<Rightarrow> string" where
  "edge_key r =
     (if str_less (targetFile r) (sourceFile r)
      then targetFile r @ ''--'' @ sourceFile r
      else sourceFile r @ ''--'' @ targetFile r)"

fun make_links :: "(string \<Rightarrow> nat option) \<Rightarrow> relationship list \<Rightarrow> graph_link list" where
  "make_links edgeCounts [] = []"
| "make_links edgeCounts (r # rs) =
     (let key = edge_key r;
          count = (case edgeCounts key of None \<Rightarrow> 0 | Some c \<Rightarrow> c)
      in \<lparr>link_source = sourceFile r,
          link_target = targetFile r,
          link_relationship = r,
          curveOffset = count * 30\<rparr>
           # make_links (edgeCounts(key \<mapsto> count + 1)) rs)"

definition update :: "renderer \<Rightarrow> (nat \<Rightarrow> real) \<Rightarrow> string list \<Rightarrow> relationship list \<Rightarrow> renderer" where
  "update st rnd nodeNames relationships =
     (let filtered = filter_by_label (labelFilter st) relationships;
          nodeSet = node_names nodeNames filtered;
          oldNodeMap = old_node_map (nodes st)
      in st\<lparr>nodes := make_nodes oldNodeMap (existingFiles st) (width st) (height st) rnd 0 nodeSet,
            links := make_links Map.empty filtered\<rparr>)"


section \<open>Facts about the parser\<close>

subsection \<open>Ids\<close>

lemma digit_char_value: "d < 10 \<Longrightarrow> (of_char (digit_char d) :: nat) = 48 + d"
  by (simp add: digit_char_def)

lemma digit_char_not_colon: "d < 10 \<Longrightarrow> digit_char d \<noteq> CHR '':''"
proof
  assume "d < 10" and "digit_char d = CHR '':''"
  then have "(of_char (digit_char d) :: nat) = of_char CHR '':''"
    by simp
  with \<open>d < 10\<close> show False
    by (simp add: digit_char_value)
qed

lemma number_to_string_no_colon: "CHR '':'' \<notin> set (number_to_string n)"
proof (induction n rule: number_to_string.induct)
  case (1 n)
  show ?case
  proof (cases "n < 10")
    case True
    then show ?thesis
      using digit_char_not_colon [of n] by (subst number_to_string.simps) auto
  next
    case False
    with 1 digit_char_not_colon [of "n mod 10"] show ?thesis
      by (subst number_to_string.simps) auto
  qed
qed

lemma digits_value_number_to_string: "digits_value (number_to_string n) = n"
proof (induction n rule: number_to_string.induct)
  case (1 n)
  show ?case
  proof (cases "n < 10")
    case True
    then show ?thesis
      by (subst number_to_string.simps) (simp add: digits_value_def digit_char_value)
  next
    case False
    with 1 have "digits_value (number_to_string (n div 10)) = n div 10"
      by simp
    with False show ?thesis
      by (subst number_to_string.simps) (simp add: digits_value_def digit_char_value)
  qed
qed

lemma number_to_string_inj: "number_to_string a = number_to_string b \<Longrightarrow> a = b"
  by (metis digits_value_number_to_string)

lemma split_at_unique:
  assumes "c \<notin> set xs" and "c \<notin> set xs'" and "xs @ c # ys = xs' @ c # ys'"
  shows "xs = xs' \<and> ys = ys'"
proof -
  from assms(1) have "takeWhile (\<lambda>x. x \<noteq> c) (xs @ c # ys) = xs"
    by (auto simp: takeWhile_tail takeWhile_eq_all_conv)
  moreover from assms(2) have "takeWhile (\<lambda>x. x \<noteq> c) (xs' @ c # ys') = xs'"
    by (auto simp: takeWhile_tail takeWhile_eq_all_conv)
  ultimately have "xs = xs'"
    using assms(3) by simp
  with assms(3) show ?thesis by simp
qed

lemma generateId_inj:
  assumes "generateId source l j = generateId source l' j'"
  shows "l = l' \<and> j = j'"
proof -
  from assms have "number_to_string l @ CHR '':'' # number_to_string j
      = number_to_string l' @ CHR '':'' # number_to_string j'"
    by (simp add: generateId_def)
  from split_at_unique [OF number_to_string_no_colon number_to_string_no_colon this]
  show ?thesis
    by (simp add: number_to_string_inj)
qed

subsection \<open>The loop over the matches\<close>

lemma parse_loop_ids:
  "map rel_id (parse_loop pd source lines ms k)
     = map (\<lambda>(j, m). generateId source (line_number lines (m_index m)) j)
         (filter (\<lambda>(j, m). trim (m_target m) \<noteq> [] \<and> pd (m_descriptor m) \<noteq> None)
            (zip [k..<k + length ms] ms))"
proof (induction ms arbitrary: k)
  case Nil
  show ?case by simp
next
  case (Cons m ms)
  have "[k..<k + length (m # ms)] = k # [Suc k..<Suc k + length ms]"
    by (subst upt_rec) simp
  with Cons.IH [of "Suc k"] show ?case
    by (auto simp: Let_def split: option.split)
qed

lemma zip_upt_functional:
  assumes "(j, m) \<in> set (zip [k..<k + length ms] ms)"
  shows "m = ms ! (j - k)"
proof -
  from assms obtain n where "[k..<k + length ms] ! n = j" "ms ! n = m" "n < length ms"
    by (auto simp: in_set_zip)
  then show ?thesis by auto
qed

lemma parse_loop_ids_distinct: "distinct (map rel_id (parse_loop pd source lines ms k))"
proof -
  let ?P = "\<lambda>(j, m). trim (m_target m) \<noteq> [] \<and> pd (m_descriptor m) \<noteq> None"
  let ?f = "\<lambda>(j, m). generateId source (line_number lines (m_index m)) j"
  let ?zs = "zip [k..<k + length ms] ms"
  have "distinct ?zs"
    by (simp add: distinct_zipI1)
  then have d: "distinct (filter ?P ?zs)"
    by simp
  have "inj_on ?f (set (filter ?P ?zs))"
  proof (rule inj_onI)
    fix a b
    assume a: "a \<in> set (filter ?P ?zs)" and b: "b \<in> set (filter ?P ?zs)" and eq: "?f a = ?f b"
    obtain j m where [simp]: "a = (j, m)" by (cases a)
    obtain j' m' where [simp]: "b = (j', m')" by (cases b)
    from eq have "j = j'"
      by (auto dest: generateId_inj)
    moreover from a have "m = ms ! (j - k)"
      by (auto dest: zip_upt_functional)
    moreover from b have "m' = ms ! (j' - k)"
      by (auto dest: zip_upt_functional)
    ultimately show "a = b" by simp
  qed
  with d have "distinct (map ?f (filter ?P ?zs))"
    by (simp add: distinct_map)
  then show ?thesis
    by (simp only: parse_loop_ids)
qed

subsection \<open>The descriptor grammar\<close>

lemma startsWith_plus: "startsWith d ''+'' = begins_plus d"
  by (cases d) (simp_all add: startsWith_def begins_plus_def)

lemma endsWith_plus: "endsWith d ''+'' = finishes_plus d"
  by (cases d rule: rev_cases) (simp_all add: endsWith_def finishes_plus_def)

lemma slice_inner: "slice d 1 (- 1) = butlast (tl d)"
proof (cases d)
  case Nil
  then show ?thesis by (simp add: slice_def)
next
  case (Cons c cs)
  then show ?thesis
    by (cases cs rule: rev_cases) (simp_all add: slice_def Let_def butlast_conv_take)
qed

lemma slice_from_one: "slice_from d 1 = tl d"
  by (cases d) (simp_all add: slice_from_def slice_def Let_def)

lemma slice_front: "slice d 0 (- 1) = butlast d"
  by (cases d rule: rev_cases) (simp_all add: slice_def Let_def)

lemma has_alnum_filter: "has_alnum d = (filter is_alnum d \<noteq> [])"
  by (simp add: has_alnum_def list_ex_iff filter_empty_conv)

lemma only_dash_no_plus: "only_dash d \<Longrightarrow> CHR ''+'' \<notin> set d"
  by (auto simp: only_dash_def list_all_iff)

lemma only_dash_no_alnum: "only_dash d \<Longrightarrow> filter is_alnum d = []"
proof -
  assume "only_dash d"
  then have "\<forall>c \<in> set d. c = CHR ''-''"
    by (simp add: only_dash_def list_all_iff)
  moreover have "\<not> is_alnum CHR ''-''"
    by (simp add: is_alnum_def)
  ultimately have "\<forall>c \<in> set d. \<not> is_alnum c"
    by metis
  then show ?thesis
    by (simp add: filter_empty_conv)
qed

lemma begins_plus_in_set: "begins_plus d \<Longrightarrow> CHR ''+'' \<in> set d"
  by (cases d) (simp_all add: begins_plus_def)

lemma finishes_plus_in_set: "finishes_plus d \<Longrightarrow> CHR ''+'' \<in> set d"
  by (metis finishes_plus_def last_in_set)

lemma spec_classify_only_dash:
  assumes "only_dash d"
  shows "spec_classify d = None"
proof -
  note np = only_dash_no_plus [OF assms]
  from np have "d \<noteq> ''-+''" and "d \<noteq> ''+-''" and "d \<noteq> ''++''"
    by auto
  moreover from np have "\<not> begins_plus d" and "\<not> finishes_plus d"
    by (blast dest: begins_plus_in_set finishes_plus_in_set)+
  ultimately show ?thesis
    by (simp add: spec_classify_def only_dash_no_alnum [OF assms])
qed

lemma spec_classify_empty: "spec_classify [] = None"
  by (simp add: spec_classify_def begins_plus_def finishes_plus_def)

lemma parseDescriptor_refines_spec: "parseDescriptor descriptor = spec_classify (trim descriptor)"
proof -
  define d where "d = trim descriptor"
  consider "d = []" | "d \<noteq> []" "only_dash d" | "d \<noteq> []" "\<not> only_dash d"
    by blast
  then have "parseDescriptor descriptor = spec_classify d"
  proof cases
    case 1
    then show ?thesis
      by (simp add: parseDescriptor_def d_def [symmetric] spec_classify_empty)
  next
    case 2
    from only_dash_no_plus [OF 2(2)] have "d \<noteq> ''-+''" and "d \<noteq> ''+-''" and "d \<noteq> ''++''"
      by auto
    moreover from 2(2) have "only_dash_plus d"
      by (simp add: only_dash_def only_dash_plus_def list_all_iff)
    ultimately have "parseDescriptor descriptor = None"
      using 2 by (simp add: parseDescriptor_def d_def [symmetric])
    with 2(2) show ?thesis
      by (simp add: spec_classify_only_dash)
  next
    case 3
    then show ?thesis
      by (simp add: parseDescriptor_def d_def [symmetric] spec_classify_def Let_def labelled_def
          startsWith_plus endsWith_plus slice_inner slice_from_one slice_front has_alnum_filter
          split del: if_split cong: if_cong)
  qed
  then show ?thesis
    by (simp only: d_def)
qed

subsection \<open>The pattern on the text of one declaration\<close>

lemma many_lazy_hit: "F s = Some r \<Longrightarrow> many_lazy p F s = Some r"
  by (cases s) simp_all

lemma many_lazy_through:
  "(\<And>u v. t = u @ v \<Longrightarrow> v \<noteq> [] \<Longrightarrow> F (v @ tail) = None) \<Longrightarrow> list_all p t
     \<Longrightarrow> many_lazy p F (t @ tail) = many_lazy p F tail"
proof (induction t)
  case Nil
  show ?case by simp
next
  case (Cons c t)
  from Cons.prems(1) [of "[]" "c # t"] have "F (c # t @ tail) = None"
    by simp
  moreover have "many_lazy p F (t @ tail) = many_lazy p F tail"
  proof (rule Cons.IH)
    fix u v assume "t = u @ v" "v \<noteq> []"
    then show "F (v @ tail) = None"
      using Cons.prems(1) [of "c # u" v] by simp
  next
    from Cons.prems(2) show "list_all p t" by simp
  qed
  ultimately show ?case
    using Cons.prems(2) by simp
qed

lemma many_greedy_hit:
  "list_all p ws \<Longrightarrow> \<not> p c \<Longrightarrow> G (c # x) = Some r \<Longrightarrow> many_greedy p G (ws @ c # x) = Some r"
  by (induction ws) simp_all

lemma many_greedy_miss:
  "v \<noteq> [] \<Longrightarrow> \<not> p (last v) \<Longrightarrow> (\<And>c x. c \<in> set v \<Longrightarrow> G (c # x) = None)
     \<Longrightarrow> many_greedy p G (v @ tail) = None"
proof (induction v)
  case Nil
  then show ?case by simp
next
  case (Cons c v)
  have here: "G (c # v @ tail) = None"
    by (rule Cons.prems(3)) simp
  show ?case
  proof (cases "v = []")
    case True
    with Cons.prems(2) here show ?thesis by simp
  next
    case False
    with Cons.prems have "many_greedy p G (v @ tail) = None"
      by (intro Cons.IH) simp_all
    with here show ?thesis by simp
  qed
qed

lemma many_greedy_hit_hd:
  "list_all p ws \<Longrightarrow> s \<noteq> [] \<Longrightarrow> \<not> p (hd s) \<Longrightarrow> G s = Some r
     \<Longrightarrow> many_greedy p G (ws @ s) = Some r"
  by (cases s) (simp_all add: many_greedy_hit)

lemma lit_miss: "c \<noteq> a \<Longrightarrow> lit (a # as) k (c # x) = None"
  by simp

lemma regex_double_on_declaration:
  assumes d: "CHR ''>'' \<notin> set d"
    and ws1: "list_all is_space ws1" and ws2: "list_all is_space ws2"
    and t: "t \<noteq> []" "\<not> is_space (hd t)" "\<not> is_space (last t)" "CHR '']'' \<notin> set t"
       "list_all is_dot t"
  shows "regex_double (''<<'' @ d @ ''>>[['' @ ws1 @ t @ ws2 @ '']]'' @ rest) = Some (d, t, rest)"
proof -
  let ?s1 = "d @ ''>>[['' @ ws1 @ t @ ws2 @ '']]'' @ rest"
  let ?s2 = "''>>[['' @ ws1 @ t @ ws2 @ '']]'' @ rest"
  let ?s4 = "t @ ws2 @ '']]'' @ rest"
  let ?s5 = "ws2 @ '']]'' @ rest"
  define K6 where "K6 = (\<lambda>s2 s4 s5 s6. lit '']]'' (\<lambda>s7. Some (between ?s1 s2, between s4 s5, s7)) s6)"
  define K5 where "K5 = (\<lambda>s2 s4 s5. many_greedy is_space (K6 s2 s4 s5) s5)"
  define K4 where "K4 = (\<lambda>s2 s4. many_lazy is_dot (K5 s2 s4) s4)"
  define K3 where "K3 = (\<lambda>s2 s3. many_greedy is_space (K4 s2) s3)"
  define K2 where "K2 = (\<lambda>s2. lit ''>>[['' (K3 s2) s2)"
  have start: "regex_double (''<<'' @ ?s1) = many_lazy not_gt K2 ?s1"
    by (simp add: regex_double_def K2_def K3_def K4_def K5_def K6_def)
  have g1: "between ?s1 ?s2 = d"
    by (simp add: between_def)
  have g2: "between ?s4 ?s5 = t"
    by (simp add: between_def)
  have not_bracket: "\<not> is_space CHR '']''"
    by (simp add: is_space_def)
  have "K6 ?s2 ?s4 ?s5 (CHR '']'' # CHR '']'' # rest) = Some (d, t, rest)"
    by (simp add: K6_def g1 g2 del: append.simps)
  with ws2 not_bracket have k5: "K5 ?s2 ?s4 ?s5 = Some (d, t, rest)"
    unfolding K5_def using many_greedy_hit [of is_space ws2 "CHR '']''" "K6 ?s2 ?s4 ?s5" "CHR '']'' # rest"]
    by simp
  have miss: "K5 ?s2 ?s4 (v @ ?s5) = None" if "t = u @ v" "v \<noteq> []" for u v
  proof -
    from that t(3) have "\<not> is_space (last v)" by simp
    moreover have "K6 ?s2 ?s4 (v @ ?s5) (c # x) = None" if "c \<in> set v" for c x
    proof -
      from that \<open>t = u @ v\<close> t(4) have "c \<noteq> CHR '']''" by auto
      then show ?thesis by (simp add: K6_def)
    qed
    ultimately show ?thesis
      unfolding K5_def using \<open>v \<noteq> []\<close> by (intro many_greedy_miss) auto
  qed
  have "many_lazy is_dot (K5 ?s2 ?s4) (t @ ?s5) = many_lazy is_dot (K5 ?s2 ?s4) ?s5"
    using miss t(5) by (intro many_lazy_through) auto
  also have "\<dots> = Some (d, t, rest)"
    using k5 by (rule many_lazy_hit)
  finally have k4: "K4 ?s2 ?s4 = Some (d, t, rest)"
    by (simp add: K4_def)
  from t(1) t(2) have "?s4 \<noteq> []" and "\<not> is_space (hd ?s4)"
    by simp_all
  with ws1 k4 have k3: "K3 ?s2 (ws1 @ ?s4) = Some (d, t, rest)"
    unfolding K3_def by (intro many_greedy_hit_hd)
  then have k2: "K2 ?s2 = Some (d, t, rest)"
    by (simp add: K2_def)
  have "many_lazy not_gt K2 (d @ ?s2) = many_lazy not_gt K2 ?s2"
  proof (rule many_lazy_through)
    fix u v assume "d = u @ v" "v \<noteq> []"
    then obtain c v' where v: "v = c # v'" by (cases v) auto
    with \<open>d = u @ v\<close> d have "c \<noteq> CHR ''>''" by auto
    then show "K2 (v @ ?s2) = None"
      by (simp add: K2_def v)
  next
    from d show "list_all not_gt d"
      by (auto simp: list_all_iff not_gt_def)
  qed
  also have "\<dots> = Some (d, t, rest)"
    using k2 by (rule many_lazy_hit)
  finally show ?thesis
    using start by simp
qed

section \<open>The parser on one declaration\<close>

lemma trim_plain: "t \<noteq> [] \<Longrightarrow> \<not> is_space (hd t) \<Longrightarrow> \<not> is_space (last t) \<Longrightarrow> trim t = t"
proof -
  assume t: "t \<noteq> []" "\<not> is_space (hd t)" "\<not> is_space (last t)"
  then have "dropWhile is_space t = t"
    by (cases t) simp_all
  moreover from t have "dropWhile is_space (rev t) = rev t"
    by (cases t rule: rev_cases) simp_all
  ultimately show ?thesis
    by (simp add: trim_def)
qed

lemma split_nl_nonempty: "split_nl s \<noteq> []"
  by (induction s) (auto split: list.split)

lemma line_number_first: "line_number (split_nl s) 0 = 1"
  using split_nl_nonempty [of s] by (cases "split_nl s") (simp_all add: line_number_def)

lemma regex_double_empty: "regex_double [] = None"
  by (simp add: regex_double_def)

lemma exec_double_one:
  "regex_double s = Some (d, t, []) \<Longrightarrow>
     exec_double 0 s = [\<lparr>m_index = 0, m_descriptor = d, m_target = t\<rparr>]"
  by (subst exec_double.simps, simp, subst exec_double.simps) (simp add: regex_double_empty)

lemma parse_loop_emit:
  "trim (m_target m) \<noteq> [] \<Longrightarrow> pd (m_descriptor m) = Some (dir, lab) \<Longrightarrow>
     parse_loop pd source lines (m # ms) k =
       \<lparr>rel_id = generateId source (line_number lines (m_index m)) k,
        sourceFile = source,
        targetFile = trim (m_target m),
        direction = dir,
        label = lab,
        line = line_number lines (m_index m)\<rparr>
         # parse_loop pd source lines ms (k + 1)"
  by (simp add: Let_def)

lemma parse_loop_discard:
  "trim (m_target m) = [] \<or> pd (m_descriptor m) = None \<Longrightarrow>
     parse_loop pd source lines (m # ms) k = parse_loop pd source lines ms (k + 1)"
  by (auto simp: Let_def)

lemma exec_double_on_declaration:
  assumes "CHR ''>'' \<notin> set d" "list_all is_space lead" "list_all is_space trail"
    "t \<noteq> []" "\<not> is_space (hd t)" "\<not> is_space (last t)" "CHR '']'' \<notin> set t" "list_all is_dot t"
  shows "exec_double 0 (''<<'' @ d @ ''>>[['' @ lead @ t @ trail @ '']]'')
     = [\<lparr>m_index = 0, m_descriptor = d, m_target = t\<rparr>]"
proof -
  from regex_double_on_declaration [OF assms, of "[]"]
  have "regex_double (''<<'' @ d @ ''>>[['' @ lead @ t @ trail @ '']]'') = Some (d, t, [])"
    by simp
  then show ?thesis
    by (rule exec_double_one)
qed

lemma only_dash_trim: "only_dash d \<Longrightarrow> trim d = d"
proof -
  assume a: "only_dash d"
  then have ne: "d \<noteq> []" and all: "\<forall>c \<in> set d. c = CHR ''-''"
    by (simp_all add: only_dash_def list_all_iff)
  have "\<not> is_space CHR ''-''"
    by (simp add: is_space_def)
  with ne all have "\<not> is_space (hd d)" and "\<not> is_space (last d)"
    by (metis hd_in_set, metis last_in_set)
  with ne show ?thesis
    by (rule trim_plain)
qed

lemma trim_empty: "trim [] = []"
  by (simp add: trim_def)

lemma parseDescriptor_dashes: "descriptor = [] \<or> only_dash descriptor \<Longrightarrow> parseDescriptor descriptor = None"
  by (auto simp: parseDescriptor_refines_spec trim_empty spec_classify_empty only_dash_trim
      spec_classify_only_dash)

lemma only_dash_replicate: "only_dash d \<Longrightarrow> d = replicate (length d) CHR ''-''"
  by (simp add: only_dash_def list_all_iff replicate_length_same)

lemma parseDescriptor_single_dashes:
  assumes "only_dash descriptor" and "2 \<le> length descriptor"
  shows "parseDescriptor_single descriptor
     = Some (Undirected, if length descriptor = 2 then None
                         else Some (replicate (length descriptor - 2) CHR ''-''))"
proof -
  define n where "n = length descriptor - 2"
  from assms(2) have len: "length descriptor = Suc (Suc n)"
    by (simp add: n_def)
  with only_dash_replicate [OF assms(1)]
  have d: "descriptor = CHR ''-'' # replicate n CHR ''-'' @ [CHR ''-'']"
    by (simp add: replicate_append_same)
  have tr: "trim descriptor = descriptor"
    using assms(1) by (rule only_dash_trim)
  have inner: "slice descriptor 1 (- 1) = replicate n CHR ''-''"
    by (simp add: slice_inner d butlast_append)
  have tin: "n \<noteq> 0 \<Longrightarrow> trim (replicate n CHR ''-'') = replicate n CHR ''-''"
    by (rule only_dash_trim) (simp add: only_dash_def list_all_iff)
  have first: "descriptor ! 0 = CHR ''-''"
    by (simp add: d)
  have lst: "descriptor ! (length descriptor - 1) = CHR ''-''"
    by (simp add: d nth_append)
  show ?thesis
    unfolding parseDescriptor_single_def tr Let_def first lst inner
    using len tin by (simp add: n_def)
qed

section \<open>The descriptor grammar\<close>

text \<open>
  C2. \<^verbatim>\<open>parseDescriptor\<close> computes the grammar of the specification on the trimmed
  descriptor: the three bare arrows, then \<^verbatim>\<open>+label+\<close>, \<^verbatim>\<open>+label\<close>, \<^verbatim>\<open>label+\<close> with
  the label trimmed and an empty label malformed, then any text with a letter or digit as
  an undirected label, and nothing else. A match whose target does not trim to
  empty and whose descriptor the grammar accepts adds exactly one relationship, with that
  direction and label, to the result of the loop. In particular the text of one
  declaration \<^verbatim>\<open><<d>>[[ t ]]\<close>, where \<open>d\<close> has no \<^verbatim>\<open>>\<close> and the target \<open>t\<close> is on one
  line, has no \<^verbatim>\<open>]\<close> and neither starts nor ends with white space, parses to exactly
  one relationship, on line 1 with occurrence 0, with target \<open>t\<close>.
\<close>

theorem parseDescriptor_follows_grammar:
  "parseDescriptor descriptor = spec_classify (trim descriptor)
   \<and> (trim (m_target m) \<noteq> [] \<and> spec_classify (trim (m_descriptor m)) = Some (dir, lab) \<longrightarrow>
        parse_loop parseDescriptor source lines (m # ms) k =
          \<lparr>rel_id = generateId source (line_number lines (m_index m)) k,
           sourceFile = source,
           targetFile = trim (m_target m),
           direction = dir,
           label = lab,
           line = line_number lines (m_index m)\<rparr>
            # parse_loop parseDescriptor source lines ms (k + 1))
   \<and> (CHR ''>'' \<notin> set d \<and> list_all is_space lead \<and> list_all is_space trail
        \<and> t \<noteq> [] \<and> \<not> is_space (hd t) \<and> \<not> is_space (last t) \<and> CHR '']'' \<notin> set t
        \<and> list_all is_dot t \<and> spec_classify (trim d) = Some (dir', lab') \<longrightarrow>
        parseRelationships (''<<'' @ d @ ''>>[['' @ lead @ t @ trail @ '']]'') source' =
          [\<lparr>rel_id = generateId source' 1 0,
            sourceFile = source',
            targetFile = t,
            direction = dir',
            label = lab',
            line = 1\<rparr>])"
proof (intro conjI impI)
  show "parseDescriptor descriptor = spec_classify (trim descriptor)"
    by (rule parseDescriptor_refines_spec)
next
  assume "trim (m_target m) \<noteq> [] \<and> spec_classify (trim (m_descriptor m)) = Some (dir, lab)"
  then have "trim (m_target m) \<noteq> []" and "parseDescriptor (m_descriptor m) = Some (dir, lab)"
    by (simp_all add: parseDescriptor_refines_spec)
  then show "parse_loop parseDescriptor source lines (m # ms) k =
          \<lparr>rel_id = generateId source (line_number lines (m_index m)) k,
           sourceFile = source,
           targetFile = trim (m_target m),
           direction = dir,
           label = lab,
           line = line_number lines (m_index m)\<rparr>
            # parse_loop parseDescriptor source lines ms (k + 1)"
    by (rule parse_loop_emit)
next
  assume a: "CHR ''>'' \<notin> set d \<and> list_all is_space lead \<and> list_all is_space trail
        \<and> t \<noteq> [] \<and> \<not> is_space (hd t) \<and> \<not> is_space (last t) \<and> CHR '']'' \<notin> set t
        \<and> list_all is_dot t \<and> spec_classify (trim d) = Some (dir', lab')"
  let ?text = "''<<'' @ d @ ''>>[['' @ lead @ t @ trail @ '']]''"
  let ?m = "\<lparr>m_index = 0, m_descriptor = d, m_target = t\<rparr>"
  from a have ms: "exec_double 0 ?text = [?m]"
    by (intro exec_double_on_declaration) simp_all
  from a have tt: "trim t = t"
    by (intro trim_plain) simp_all
  from a have pd: "parseDescriptor (m_descriptor ?m) = Some (dir', lab')"
    by (simp add: parseDescriptor_refines_spec)
  from a tt have ne: "trim (m_target ?m) \<noteq> []"
    by simp
  have "parseRelationships ?text source'
      = parse_loop parseDescriptor source' (split_nl ?text) [?m] 0"
    by (simp only: parseRelationships_def ms)
  also have "\<dots> = [\<lparr>rel_id = generateId source' 1 0,
            sourceFile = source',
            targetFile = t,
            direction = dir',
            label = lab',
            line = 1\<rparr>]"
    unfolding parse_loop_emit [of ?m parseDescriptor dir' lab', OF ne pd]
    by (simp add: tt line_number_first del: append.simps)
  finally show "parseRelationships ?text source' =
          [\<lparr>rel_id = generateId source' 1 0,
            sourceFile = source',
            targetFile = t,
            direction = dir',
            label = lab',
            line = 1\<rparr>]" .
qed

theorem parseDescriptor_follows_grammar_witness:
  "parseDescriptor '' +depends on+ '' = Some (Bidirectional, Some ''depends on'')
   \<and> parseRelationships ''<<manages+>>[[  Library Core ]]'' ''Awal''
     = [\<lparr>rel_id = ''Awal:1:0'', sourceFile = ''Awal'', targetFile = ''Library Core'',
          direction = Outgoing, label = Some ''manages'', line = 1\<rparr>]"
proof -
  note fact = parseDescriptor_follows_grammar
    [where descriptor = "'' +depends on+ ''" and d = "''manages+''" and lead = "''  ''"
       and t = "''Library Core''" and trail = "'' ''" and dir' = Outgoing
       and lab' = "Some ''manages''" and source' = "''Awal''"]
  have cls: "spec_classify (trim '' +depends on+ '') = Some (Bidirectional, Some ''depends on'')"
    by code_simp
  from fact [THEN conjunct1] cls
  have one: "parseDescriptor '' +depends on+ '' = Some (Bidirectional, Some ''depends on'')"
    by (simp only:)
  have pre: "CHR ''>'' \<notin> set ''manages+'' \<and> list_all is_space ''  '' \<and> list_all is_space '' ''
        \<and> ''Library Core'' \<noteq> [] \<and> \<not> is_space (hd ''Library Core'')
        \<and> \<not> is_space (last ''Library Core'') \<and> CHR '']'' \<notin> set ''Library Core''
        \<and> list_all is_dot ''Library Core''
        \<and> spec_classify (trim ''manages+'') = Some (Outgoing, Some ''manages'')"
    by code_simp
  have id: "generateId ''Awal'' (Suc 0) 0 = ''Awal:1:0''"
    by code_simp
  from fact [THEN conjunct2, THEN conjunct2, rule_format, OF pre]
  have two: "parseRelationships ''<<manages+>>[[  Library Core ]]'' ''Awal''
     = [\<lparr>rel_id = ''Awal:1:0'', sourceFile = ''Awal'', targetFile = ''Library Core'',
          direction = Outgoing, label = Some ''manages'', line = 1\<rparr>]"
    by (simp add: id)
  from one two show ?thesis
    by (intro conjI)
qed

section \<open>Descriptors made of dashes\<close>

text \<open>
  C3, as stated, fails in the single-delimiter parser: its pattern asks for a descriptor
  that begins and ends with a plus or a dash, and two dashes are its undirected edge
  without label, as the tests of the repository expect of \<^verbatim>\<open><-->[[Target]]\<close>.
\<close>

theorem single_delimiter_double_dash_counterexample:
  "parseRelationships_single ''<-->[[Target]]'' ''Awal''
     = [\<lparr>rel_id = ''Awal:1:0'', sourceFile = ''Awal'', targetFile = ''Target'',
          direction = Undirected, label = None, line = 1\<rparr>]"
  by code_simp

text \<open>
  C3, amended. In the double-delimiter parser an empty descriptor and a descriptor made of
  dashes only are malformed: \<^verbatim>\<open>parseDescriptor\<close> returns nothing, the loop adds no
  relationship for such a match and goes on with the next occurrence index, and the text of
  one such declaration parses to no relationship. In the single-delimiter parser a
  descriptor of two or more dashes is an undirected edge, whose label is absent for two
  dashes and is the inner dashes otherwise.
\<close>

theorem dash_only_descriptor_is_discarded:
  "(descriptor = [] \<or> only_dash descriptor \<longrightarrow>
       parseDescriptor descriptor = None
     \<and> (m_descriptor m = descriptor \<longrightarrow>
          parse_loop parseDescriptor source lines (m # ms) k
            = parse_loop parseDescriptor source lines ms (k + 1))
     \<and> (list_all is_space lead \<and> list_all is_space trail
          \<and> t \<noteq> [] \<and> \<not> is_space (hd t) \<and> \<not> is_space (last t) \<and> CHR '']'' \<notin> set t
          \<and> list_all is_dot t \<longrightarrow>
          parseRelationships (''<<'' @ descriptor @ ''>>[['' @ lead @ t @ trail @ '']]'') source
            = []))
   \<and> (only_dash descriptor \<and> 2 \<le> length descriptor \<longrightarrow>
        parseDescriptor_single descriptor
          = Some (Undirected, if length descriptor = 2 then None
                              else Some (replicate (length descriptor - 2) CHR ''-'')))"
proof (intro conjI impI)
  assume a: "descriptor = [] \<or> only_dash descriptor"
  then show none: "parseDescriptor descriptor = None"
    by (rule parseDescriptor_dashes)
  {
    assume "m_descriptor m = descriptor"
    with none have "trim (m_target m) = [] \<or> parseDescriptor (m_descriptor m) = None"
      by simp
    then show "parse_loop parseDescriptor source lines (m # ms) k
            = parse_loop parseDescriptor source lines ms (k + 1)"
      by (rule parse_loop_discard)
  }
  {
    assume b: "list_all is_space lead \<and> list_all is_space trail
          \<and> t \<noteq> [] \<and> \<not> is_space (hd t) \<and> \<not> is_space (last t) \<and> CHR '']'' \<notin> set t
          \<and> list_all is_dot t"
    let ?text = "''<<'' @ descriptor @ ''>>[['' @ lead @ t @ trail @ '']]''"
    let ?m = "\<lparr>m_index = 0, m_descriptor = descriptor, m_target = t\<rparr>"
    from a have "CHR ''>'' \<notin> set descriptor"
      by (auto simp: only_dash_def list_all_iff)
    with b have ms: "exec_double 0 ?text = [?m]"
      by (intro exec_double_on_declaration) simp_all
    from none have "trim (m_target ?m) = [] \<or> parseDescriptor (m_descriptor ?m) = None"
      by simp
    from parse_loop_discard [of ?m parseDescriptor source "split_nl ?text" "[]" 0, OF this]
    show "parseRelationships ?text source = []"
      by (simp add: parseRelationships_def ms del: append.simps)
  }
next
  assume "only_dash descriptor \<and> 2 \<le> length descriptor"
  then show "parseDescriptor_single descriptor
          = Some (Undirected, if length descriptor = 2 then None
                              else Some (replicate (length descriptor - 2) CHR ''-''))"
    by (intro parseDescriptor_single_dashes) simp_all
qed

theorem dash_only_descriptor_is_discarded_witness:
  "only_dash ''--''
   \<and> parseDescriptor ''--'' = None
   \<and> parseRelationships ''<<-->>[[ Target ]]'' ''Awal'' = []
   \<and> parseDescriptor_single ''--'' = Some (Undirected, None)"
proof -
  note fact = dash_only_descriptor_is_discarded
    [where descriptor = "''--''" and lead = "'' ''" and trail = "'' ''" and t = "''Target''"
       and source = "''Awal''"]
  have od: "only_dash ''--''"
    by code_simp
  then have h: "''--'' = [] \<or> only_dash ''--''"
    by (rule disjI2)
  note dbl = fact [THEN conjunct1, rule_format, OF h]
  have pre: "list_all is_space '' '' \<and> list_all is_space '' ''
      \<and> ''Target'' \<noteq> [] \<and> \<not> is_space (hd ''Target'') \<and> \<not> is_space (last ''Target'')
      \<and> CHR '']'' \<notin> set ''Target'' \<and> list_all is_dot ''Target''"
    by code_simp
  from dbl [THEN conjunct2, THEN conjunct2, rule_format, OF pre]
  have decl: "parseRelationships ''<<-->>[[ Target ]]'' ''Awal'' = []"
    by simp
  have h2: "only_dash ''--'' \<and> 2 \<le> length ''--''"
    using od by simp
  from fact [THEN conjunct2, rule_format, OF h2]
  have sgl: "parseDescriptor_single ''--'' = Some (Undirected, None)"
    by simp
  from od dbl [THEN conjunct1] decl sgl show ?thesis
    by (intro conjI)
qed

section \<open>The occurrence counter\<close>

text \<open>
  C5. A match whose target trims to empty, or whose descriptor is malformed, adds no
  relationship and the loop goes on with the occurrence index advanced by one. Hence the
  ids of the relationships returned are the ids of the accepted matches, each numbered by
  its position among all matches of the text, discarded ones included. This holds for the
  loop with any descriptor parser, and so for both parser files.
\<close>

theorem discarded_match_advances_counter:
  "(trim (m_target m) = [] \<or> pd (m_descriptor m) = None \<longrightarrow>
       parse_loop pd source lines (m # ms) k = parse_loop pd source lines ms (k + 1))
   \<and> map rel_id (parse_loop pd source lines ms k)
       = map (\<lambda>(j, m). generateId source (line_number lines (m_index m)) j)
           (filter (\<lambda>(j, m). trim (m_target m) \<noteq> [] \<and> pd (m_descriptor m) \<noteq> None)
              (zip [k..<k + length ms] ms))
   \<and> map rel_id (parseRelationships content source)
       = map (\<lambda>(j, m). generateId source (line_number (split_nl content) (m_index m)) j)
           (filter (\<lambda>(j, m). trim (m_target m) \<noteq> [] \<and> parseDescriptor (m_descriptor m) \<noteq> None)
              (zip [0..<length (exec_double 0 content)] (exec_double 0 content)))
   \<and> map rel_id (parseRelationships_single content source)
       = map (\<lambda>(j, m). generateId source (line_number (split_nl content) (m_index m)) j)
           (filter (\<lambda>(j, m). trim (m_target m) \<noteq> []
                              \<and> parseDescriptor_single (m_descriptor m) \<noteq> None)
              (zip [0..<length (exec_single 0 content)] (exec_single 0 content)))"
proof (intro conjI impI)
  assume "trim (m_target m) = [] \<or> pd (m_descriptor m) = None"
  then show "parse_loop pd source lines (m # ms) k = parse_loop pd source lines ms (k + 1)"
    by (rule parse_loop_discard)
next
  show "map rel_id (parse_loop pd source lines ms k)
       = map (\<lambda>(j, m). generateId source (line_number lines (m_index m)) j)
           (filter (\<lambda>(j, m). trim (m_target m) \<noteq> [] \<and> pd (m_descriptor m) \<noteq> None)
              (zip [k..<k + length ms] ms))"
    by (rule parse_loop_ids)
next
  show "map rel_id (parseRelationships content source)
       = map (\<lambda>(j, m). generateId source (line_number (split_nl content) (m_index m)) j)
           (filter (\<lambda>(j, m). trim (m_target m) \<noteq> [] \<and> parseDescriptor (m_descriptor m) \<noteq> None)
              (zip [0..<length (exec_double 0 content)] (exec_double 0 content)))"
    unfolding parseRelationships_def
    using parse_loop_ids [of parseDescriptor source "split_nl content" "exec_double 0 content" 0]
    by simp
next
  show "map rel_id (parseRelationships_single content source)
       = map (\<lambda>(j, m). generateId source (line_number (split_nl content) (m_index m)) j)
           (filter (\<lambda>(j, m). trim (m_target m) \<noteq> []
                              \<and> parseDescriptor_single (m_descriptor m) \<noteq> None)
              (zip [0..<length (exec_single 0 content)] (exec_single 0 content)))"
    unfolding parseRelationships_single_def
    using parse_loop_ids [of parseDescriptor_single source "split_nl content" "exec_single 0 content" 0]
    by simp
qed

theorem discarded_match_advances_counter_witness:
  "trim (m_target \<lparr>m_index = 0, m_descriptor = ''-+'', m_target = '' ''\<rparr>) = []
   \<and> parse_loop parseDescriptor ''A'' [''<<-+>>[[ ]]''] [\<lparr>m_index = 0, m_descriptor = ''-+'', m_target = '' ''\<rparr>] 0 = []
   \<and> map rel_id (parseRelationships ''<<-+>>[[ ]] <<-->>[[X]] <<-+>>[[B]]'' ''A'') = [''A:1:2'']"
proof -
  let ?m = "\<lparr>m_index = 0, m_descriptor = ''-+'', m_target = '' ''\<rparr>"
  note fact = discarded_match_advances_counter
    [where m = ?m and pd = parseDescriptor and source = "''A''" and lines = "[''<<-+>>[[ ]]'']"
       and ms = "[]" and k = 0 and content = "''<<-+>>[[ ]] <<-->>[[X]] <<-+>>[[B]]''"]
  have e: "trim (m_target ?m) = []"
    by code_simp
  then have h: "trim (m_target ?m) = [] \<or> parseDescriptor (m_descriptor ?m) = None"
    by (rule disjI1)
  from fact [THEN conjunct1, rule_format, OF h]
  have one: "parse_loop parseDescriptor ''A'' [''<<-+>>[[ ]]''] [?m] 0 = []"
    by simp
  have rhs: "map (\<lambda>(j, m). generateId ''A''
                 (line_number (split_nl ''<<-+>>[[ ]] <<-->>[[X]] <<-+>>[[B]]'') (m_index m)) j)
           (filter (\<lambda>(j, m). trim (m_target m) \<noteq> [] \<and> parseDescriptor (m_descriptor m) \<noteq> None)
              (zip [0..<length (exec_double 0 ''<<-+>>[[ ]] <<-->>[[X]] <<-+>>[[B]]'')]
                 (exec_double 0 ''<<-+>>[[ ]] <<-->>[[X]] <<-+>>[[B]]''))) = [''A:1:2'']"
    by code_simp
  from fact [THEN conjunct2, THEN conjunct2, THEN conjunct1] rhs
  have two: "map rel_id (parseRelationships ''<<-+>>[[ ]] <<-->>[[X]] <<-+>>[[B]]'' ''A'') = [''A:1:2'']"
    by (simp only:)
  from e one two show ?thesis
    by (intro conjI)
qed

section \<open>Distinct ids\<close>

lemma sorted_indices:
  "sorted_wrt (<) (map fst (filter P (zip [k..<k + length ms] ms)))"
proof -
  have "map fst (zip [k..<k + length ms] ms) = [k..<k + length ms]"
    by simp
  then have "sorted_wrt (<) (map fst (zip [k..<k + length ms] ms))"
    by (simp only: sorted_wrt_upt)
  then have "sorted_wrt (\<lambda>a b. fst a < fst b) (zip [k..<k + length ms] ms)"
    by (simp only: sorted_wrt_map)
  then have "sorted_wrt (\<lambda>a b. fst a < fst b) (filter P (zip [k..<k + length ms] ms))"
    by (rule sorted_wrt_filter)
  then show ?thesis
    by (simp only: sorted_wrt_map)
qed

lemma map_split_pairs:
  "map (\<lambda>(j, m). f (h m) j) zs
     = map (\<lambda>(l, j). f l j) (zip (map (\<lambda>(j, m). h m) zs) (map fst zs))"
  by (induction zs) auto

lemma parse_loop_ids_increasing:
  "\<exists>ls js. length ls = length js \<and> sorted_wrt (<) js \<and> (\<forall>j \<in> set js. k \<le> j)
     \<and> map rel_id (parse_loop pd source lines ms k)
         = map (\<lambda>(l, j). generateId source l j) (zip ls js)"
proof -
  let ?P = "\<lambda>(j, m). trim (m_target m) \<noteq> [] \<and> pd (m_descriptor m) \<noteq> None"
  let ?zs = "filter ?P (zip [k..<k + length ms] ms)"
  let ?ls = "map (\<lambda>(j, m). line_number lines (m_index m)) ?zs"
  let ?js = "map fst ?zs"
  have "map rel_id (parse_loop pd source lines ms k)
         = map (\<lambda>(l, j). generateId source l j) (zip ?ls ?js)"
    unfolding parse_loop_ids
    by (rule map_split_pairs [of "generateId source" "\<lambda>m. line_number lines (m_index m)"])
  moreover have "sorted_wrt (<) ?js"
    by (rule sorted_indices)
  moreover have "\<forall>j \<in> set ?js. k \<le> j"
    by (auto dest: set_zip_leftD)
  moreover have "length ?ls = length ?js"
    by simp
  ultimately show ?thesis
    by blast
qed

text \<open>
  C10. The ids of the relationships returned by one call of \<^verbatim>\<open>parseRelationships\<close> are
  pairwise distinct, in both parser files: they are built from a strictly increasing
  sequence of occurrence indices, and two ids of one source with different occurrence
  indices differ, whatever their lines.
\<close>

theorem parseRelationships_ids_distinct:
  "distinct (map rel_id (parseRelationships content source))
   \<and> distinct (map rel_id (parseRelationships_single content source))
   \<and> (\<exists>ls js. length ls = length js \<and> sorted_wrt (<) js
         \<and> map rel_id (parseRelationships content source)
             = map (\<lambda>(l, j). generateId source l j) (zip ls js))
   \<and> (\<exists>ls js. length ls = length js \<and> sorted_wrt (<) js
         \<and> map rel_id (parseRelationships_single content source)
             = map (\<lambda>(l, j). generateId source l j) (zip ls js))"
proof (intro conjI)
  show "distinct (map rel_id (parseRelationships content source))"
    unfolding parseRelationships_def by (rule parse_loop_ids_distinct)
  show "distinct (map rel_id (parseRelationships_single content source))"
    unfolding parseRelationships_single_def by (rule parse_loop_ids_distinct)
  show "\<exists>ls js. length ls = length js \<and> sorted_wrt (<) js
         \<and> map rel_id (parseRelationships content source)
             = map (\<lambda>(l, j). generateId source l j) (zip ls js)"
    unfolding parseRelationships_def
    using parse_loop_ids_increasing [of 0 parseDescriptor source "split_nl content" "exec_double 0 content"]
    by blast
  show "\<exists>ls js. length ls = length js \<and> sorted_wrt (<) js
         \<and> map rel_id (parseRelationships_single content source)
             = map (\<lambda>(l, j). generateId source l j) (zip ls js)"
    unfolding parseRelationships_single_def
    using parse_loop_ids_increasing [of 0 parseDescriptor_single source "split_nl content" "exec_single 0 content"]
    by blast
qed

theorem parseRelationships_ids_distinct_witness:
  "map rel_id (parseRelationships ''<<-+>>[[B]] <<-+>>[[B]]'' ''A'') = [''A:1:0'', ''A:1:1'']
   \<and> distinct (map rel_id (parseRelationships ''<<-+>>[[B]] <<-+>>[[B]]'' ''A''))"
proof -
  have ids: "map rel_id (parseRelationships ''<<-+>>[[B]] <<-+>>[[B]]'' ''A'') = [''A:1:0'', ''A:1:1'']"
    by code_simp
  from parseRelationships_ids_distinct [where content = "''<<-+>>[[B]] <<-+>>[[B]]''" and source = "''A''",
      THEN conjunct1]
  have "distinct (map rel_id (parseRelationships ''<<-+>>[[B]] <<-+>>[[B]]'' ''A''))" .
  with ids show ?thesis
    by (intro conjI)
qed

section \<open>Facts about the index as a map\<close>

lemma map_get_map_set:
  "map_get (map_set k v idx) k' = (if k' = k then Some v else map_get idx k')"
  by (induction idx) (auto simp: map_get_def)

lemma map_set_twice: "map_set k v (map_set k v' idx) = map_set k v idx"
  by (induction idx) auto

lemma map_get_map_delete:
  "map_get (map_delete k idx) k' = (if k' = k then None else map_get idx k')"
  by (induction idx) (auto simp: map_get_def map_delete_def)

lemma keys_map_set:
  "map fst (map_set k v idx) = (if k \<in> set (map fst idx) then map fst idx else map fst idx @ [k])"
  by (induction idx) force+

lemma distinct_map_set: "distinct (map fst idx) \<Longrightarrow> distinct (map fst (map_set k v idx))"
  by (simp add: keys_map_set)

lemma distinct_map_delete: "distinct (map fst idx) \<Longrightarrow> distinct (map fst (map_delete k idx))"
  by (simp add: map_delete_def distinct_map_filter)

lemma set_fold_set_add: "set (fold set_add xs acc) = set acc \<union> set xs"
  by (induction xs arbitrary: acc) (auto simp: set_add_def)

lemma set_fold_endpoints:
  "set (fold (\<lambda>r nodeSet. set_add (targetFile r) (set_add (sourceFile r) nodeSet)) rs acc)
     = set acc \<union> sourceFile ` set rs \<union> targetFile ` set rs"
  by (induction rs arbitrary: acc) (auto simp: set_add_def)

lemma set_getAllNodes:
  "set (getAllNodes idx)
     = sourceFile ` set (getAllRelationships idx) \<union> targetFile ` set (getAllRelationships idx)"
  by (simp add: getAllNodes_def set_fold_endpoints)

lemma node_id_make_nodes: "map node_id (make_nodes old ex w h rnd n ids) = ids"
  by (induction ids arbitrary: n) (simp_all add: Let_def)

lemma isGhost_make_nodes:
  "m \<in> set (make_nodes old ex w h rnd n ids) \<Longrightarrow> isGhost m = (node_id m \<notin> ex)"
  by (induction ids arbitrary: n) (auto simp: Let_def)

lemma set_node_names:
  "set (node_names nodeNames filtered)
     = set nodeNames \<union> sourceFile ` set filtered \<union> targetFile ` set filtered"
  by (simp add: node_names_def set_fold_endpoints set_fold_set_add)

section \<open>Re-indexing a source\<close>

text \<open>
  C6. After \<^verbatim>\<open>reindexFile(filename, content)\<close> the entry of the source, keyed by the file
  name without its extension, is exactly the parse of the supplied text, whatever the index
  held before; and re-indexing a second time with the same name and text leaves the index
  as the first call left it.
\<close>

theorem reindexFile_replaces_and_is_idempotent:
  "map_get (reindexFile idx filename content) (stripExtension filename)
     = Some (parseRelationships content (stripExtension filename))
   \<and> reindexFile (reindexFile idx filename content) filename content
     = reindexFile idx filename content"
  by (simp add: reindexFile_def Let_def map_get_map_set map_set_twice)

theorem reindexFile_replaces_and_is_idempotent_witness:
  "map_get
     (reindexFile
        [(''A'', [\<lparr>rel_id = ''A:7:3'', sourceFile = ''A'', targetFile = ''Old'',
                  direction = Incoming, label = Some ''stale'', line = 7\<rparr>])]
        ''A.md'' ''<<-+>>[[B]]'') ''A''
     = Some [\<lparr>rel_id = ''A:1:0'', sourceFile = ''A'', targetFile = ''B'',
               direction = Outgoing, label = None, line = 1\<rparr>]"
proof -
  have key: "stripExtension ''A.md'' = ''A''"
    by code_simp
  have parsed: "parseRelationships ''<<-+>>[[B]]'' ''A''
      = [\<lparr>rel_id = ''A:1:0'', sourceFile = ''A'', targetFile = ''B'',
           direction = Outgoing, label = None, line = 1\<rparr>]"
    by code_simp
  from reindexFile_replaces_and_is_idempotent
    [of "[(''A'', [\<lparr>rel_id = ''A:7:3'', sourceFile = ''A'', targetFile = ''Old'',
                  direction = Incoming, label = Some ''stale'', line = 7\<rparr>])]"
        "''A.md''" "''<<-+>>[[B]]''"]
  show ?thesis
    by (simp only: key parsed)
qed

lemma map_get_SomeD: "map_get idx k = Some rels \<Longrightarrow> (k, rels) \<in> set idx"
  by (simp add: map_get_def map_of_SomeD)

lemma in_getAllRelationships:
  "(k, rels) \<in> set idx \<Longrightarrow> r \<in> set rels \<Longrightarrow> r \<in> set (getAllRelationships idx)"
  by (force simp: getAllRelationships_def)

lemma node_ids_update:
  "set (map node_id (nodes (update st rnd nodeNames relationships)))
     = set nodeNames
       \<union> sourceFile ` set (filter_by_label (labelFilter st) relationships)
       \<union> targetFile ` set (filter_by_label (labelFilter st) relationships)"
  by (simp add: update_def Let_def node_id_make_nodes set_node_names del: set_map)

lemma isGhost_update:
  "m \<in> set (nodes (update st rnd nodeNames relationships))
     \<Longrightarrow> isGhost m = (node_id m \<notin> existingFiles st)"
  by (simp add: update_def Let_def isGhost_make_nodes)

section \<open>Removing a source\<close>

text \<open>
  C7. \<^verbatim>\<open>removeFile(filename)\<close> deletes exactly the entry keyed by the file name without its
  extension: that key has no entry afterwards and every other key holds the list it held
  before. A relationship of another source that targets the removed name is therefore
  still returned by \<^verbatim>\<open>getAllRelationships\<close>, the removed name is still among
  \<^verbatim>\<open>getAllNodes\<close>, and a renderer updated from the index draws it as a node, a ghost exactly
  when the name is absent from the set of existing files.
\<close>

theorem removeFile_deletes_only_own_entry:
  fixes idx :: index and filename :: string
  defines "key \<equiv> stripExtension filename"
  defines "idx' \<equiv> removeFile idx filename"
  shows "map_get idx' key = None
    \<and> (\<forall>k. k \<noteq> key \<longrightarrow> map_get idx' k = map_get idx k)
    \<and> (\<forall>k rels r. k \<noteq> key \<and> map_get idx k = Some rels \<and> r \<in> set rels \<and> targetFile r = key
          \<longrightarrow> r \<in> set (getAllRelationships idx')
            \<and> key \<in> set (getAllNodes idx')
            \<and> (\<exists>m \<in> set (nodes (update st rnd (getAllNodes idx') (getAllRelationships idx'))).
                  node_id m = key \<and> isGhost m = (key \<notin> existingFiles st)))"
proof (intro conjI allI impI)
  show "map_get idx' key = None"
    by (simp add: idx'_def key_def removeFile_def map_get_map_delete)
next
  fix k assume "k \<noteq> key"
  then show "map_get idx' k = map_get idx k"
    by (simp add: idx'_def key_def removeFile_def map_get_map_delete)
next
  fix k rels r
  assume a: "k \<noteq> key \<and> map_get idx k = Some rels \<and> r \<in> set rels \<and> targetFile r = key"
  then have "map_get idx' k = Some rels"
    by (simp add: idx'_def key_def removeFile_def map_get_map_delete)
  then have "(k, rels) \<in> set idx'"
    by (rule map_get_SomeD)
  with a show r_in: "r \<in> set (getAllRelationships idx')"
    by (blast intro: in_getAllRelationships)
  with a show key_in: "key \<in> set (getAllNodes idx')"
    by (auto simp: set_getAllNodes)
  then have "key \<in> set (map node_id (nodes (update st rnd (getAllNodes idx') (getAllRelationships idx'))))"
    unfolding node_ids_update by blast
  then obtain m where m: "m \<in> set (nodes (update st rnd (getAllNodes idx') (getAllRelationships idx')))"
      and mk: "node_id m = key"
    by auto
  from isGhost_update [OF m] mk have "isGhost m = (key \<notin> existingFiles st)"
    by simp
  with m mk show "\<exists>m \<in> set (nodes (update st rnd (getAllNodes idx') (getAllRelationships idx'))).
                  node_id m = key \<and> isGhost m = (key \<notin> existingFiles st)"
    by blast
qed

theorem removeFile_deletes_only_own_entry_witness:
  "map_get
     (removeFile
        [(''A'', [\<lparr>rel_id = ''A:1:0'', sourceFile = ''A'', targetFile = ''B'',
                  direction = Outgoing, label = None, line = 1\<rparr>]),
         (''B'', [\<lparr>rel_id = ''B:1:0'', sourceFile = ''B'', targetFile = ''A'',
                  direction = Undirected, label = Some ''x'', line = 1\<rparr>])]
        ''B.md'') ''B'' = None
   \<and> map_get
     (removeFile
        [(''A'', [\<lparr>rel_id = ''A:1:0'', sourceFile = ''A'', targetFile = ''B'',
                  direction = Outgoing, label = None, line = 1\<rparr>]),
         (''B'', [\<lparr>rel_id = ''B:1:0'', sourceFile = ''B'', targetFile = ''A'',
                  direction = Undirected, label = Some ''x'', line = 1\<rparr>])]
        ''B.md'') ''A''
       = Some [\<lparr>rel_id = ''A:1:0'', sourceFile = ''A'', targetFile = ''B'',
                 direction = Outgoing, label = None, line = 1\<rparr>]
   \<and> ''B'' \<in> set (getAllNodes
     (removeFile
        [(''A'', [\<lparr>rel_id = ''A:1:0'', sourceFile = ''A'', targetFile = ''B'',
                  direction = Outgoing, label = None, line = 1\<rparr>]),
         (''B'', [\<lparr>rel_id = ''B:1:0'', sourceFile = ''B'', targetFile = ''A'',
                  direction = Undirected, label = Some ''x'', line = 1\<rparr>])]
        ''B.md''))"
proof -
  let ?rA = "\<lparr>rel_id = ''A:1:0'', sourceFile = ''A'', targetFile = ''B'',
                  direction = Outgoing, label = None, line = 1\<rparr>"
  let ?idx = "[(''A'', [?rA]),
         (''B'', [\<lparr>rel_id = ''B:1:0'', sourceFile = ''B'', targetFile = ''A'',
                  direction = Undirected, label = Some ''x'', line = 1\<rparr>])]"
  have key: "stripExtension ''B.md'' = ''B''"
    by code_simp
  have entry: "map_get ?idx ''A'' = Some [?rA]"
    by (simp add: map_get_def)
  note fact = removeFile_deletes_only_own_entry [where idx = ?idx and filename = "''B.md''",
      unfolded key]
  note gone = fact [THEN conjunct1]
  have ne: "''A'' \<noteq> ''B''"
    by simp
  from fact [THEN conjunct2, THEN conjunct1, rule_format, OF ne]
  have "map_get (removeFile ?idx ''B.md'') ''A'' = map_get ?idx ''A''" .
  with entry have kept: "map_get (removeFile ?idx ''B.md'') ''A'' = Some [?rA]"
    by (simp only:)
  have pre: "''A'' \<noteq> ''B'' \<and> map_get ?idx ''A'' = Some [?rA] \<and> ?rA \<in> set [?rA]
      \<and> targetFile ?rA = ''B''"
    using entry by simp
  from fact [THEN conjunct2, THEN conjunct2, rule_format, OF pre]
  have node: "''B'' \<in> set (getAllNodes (removeFile ?idx ''B.md''))"
    by (rule conjunct2 [THEN conjunct1])
  from gone kept node show ?thesis
    by (intro conjI)
qed

section \<open>Renaming a source\<close>

lemma split_first_prefix: "split_first pat (pat @ rest) = Some ([], rest)"
proof (cases "pat @ rest")
  case Nil
  then show ?thesis by simp
next
  case (Cons a list)
  have "startsWith (pat @ rest) pat" and "drop (length pat) (pat @ rest) = rest"
    by (simp_all add: startsWith_def)
  then have "startsWith (a # list) pat" and "drop (length pat) (a # list) = rest"
    by (simp_all only: Cons)
  then have "split_first pat (a # list) = Some ([], rest)"
    by simp
  then show ?thesis
    by (simp only: Cons)
qed

lemma get_substitution_literal:
  "\<not> sublist ''$$'' repl \<Longrightarrow> \<not> sublist ''$&'' repl \<Longrightarrow> \<not> sublist [CHR ''$'', CHR 0x60] repl
     \<Longrightarrow> \<not> sublist [CHR ''$'', CHR 0x27] repl
     \<Longrightarrow> get_substitution matched pre post repl = repl"
proof (induction matched pre post repl rule: get_substitution.induct)
  case (1 matched pre post)
  show ?case by simp
next
  case (2 matched pre post c)
  show ?case by simp
next
  case (3 matched pre post c c' r)
  have up: "sublist p (c' # r) \<Longrightarrow> sublist p (c # c' # r)" for p
    by (simp add: sublist_Cons_right)
  from "3.prems" have here: "\<not> (c = CHR ''$'' \<and> c' = CHR ''$'')" "\<not> (c = CHR ''$'' \<and> c' = CHR ''&'')"
      "\<not> (c = CHR ''$'' \<and> c' = CHR 0x60)" "\<not> (c = CHR ''$'' \<and> c' = CHR 0x27)"
    by (auto simp: sublist_Cons_right)
  from "3.prems" up have rest: "\<not> sublist ''$$'' (c' # r)" "\<not> sublist ''$&'' (c' # r)"
      "\<not> sublist [CHR ''$'', CHR 0x60] (c' # r)" "\<not> sublist [CHR ''$'', CHR 0x27] (c' # r)"
    by blast+
  from here have "get_substitution matched pre post (c # c' # r)
      = c # get_substitution matched pre post (c' # r)"
    by auto
  also from here rest have "get_substitution matched pre post (c' # r) = c' # r"
    by (intro "3.IH"(5)) auto
  finally show ?case .
qed

lemma replace_generateId_literal:
  "\<not> sublist ''$$'' new \<Longrightarrow> \<not> sublist ''$&'' new \<Longrightarrow> \<not> sublist [CHR ''$'', CHR 0x60] new
     \<Longrightarrow> \<not> sublist [CHR ''$'', CHR 0x27] new
     \<Longrightarrow> replace (generateId old lineNo k) old new = generateId new lineNo k"
  by (simp add: generateId_def replace_def split_first_prefix get_substitution_literal)

lemma map_rename_target_unchanged:
  "\<not> list_ex (\<lambda>r. targetFile r = oldKey) rels \<Longrightarrow> map (rename_target oldKey newKey) rels = rels"
  by (induction rels) (auto simp: rename_target_def)

lemma retarget_entry_eq:
  "retarget_entry oldKey newKey e = (fst e, map (rename_target oldKey newKey) (snd e))"
  by (cases e) (simp add: retarget_entry_def Let_def map_rename_target_unchanged)

lemma map_get_map_entries:
  "map_get (map (\<lambda>e. (fst e, g (snd e))) idx) k = map_option g (map_get idx k)"
  by (induction idx) (auto simp: map_get_def)

lemma keys_map_entries: "map fst (map (\<lambda>e. (fst e, g (snd e))) idx) = map fst idx"
  by (induction idx) auto

lemma length_all_map_entries:
  "length (getAllRelationships (map (\<lambda>e. (fst e, map h (snd e))) idx))
     = length (getAllRelationships idx)"
  by (induction idx) (auto simp: getAllRelationships_def)

lemma map_get_None_iff: "map_get idx k = None \<longleftrightarrow> k \<notin> fst ` set idx"
  by (simp add: map_get_def map_of_eq_None_iff)

lemma map_set_fresh: "k \<notin> fst ` set idx \<Longrightarrow> map_set k v idx = idx @ [(k, v)]"
  by (induction idx) auto

lemma length_all_map_delete:
  "distinct (map fst idx) \<Longrightarrow> map_get idx k = Some rels
     \<Longrightarrow> length (getAllRelationships (map_delete k idx)) + length rels
         = length (getAllRelationships idx)"
proof (induction idx)
  case Nil
  then show ?case by (simp add: map_get_def)
next
  case (Cons e idx)
  show ?case
  proof (cases "fst e = k")
    case True
    with Cons.prems have "snd e = rels" and "k \<notin> fst ` set idx"
      by (auto simp: map_get_def)
    then have "filter (\<lambda>e. fst e \<noteq> k) idx = idx"
      by (auto simp: filter_id_conv)
    with True \<open>snd e = rels\<close> show ?thesis
      by (simp add: map_delete_def getAllRelationships_def)
  next
    case False
    with Cons.prems have "distinct (map fst idx)" and "map_get idx k = Some rels"
      by (auto simp: map_get_def)
    from Cons.IH [OF this] False show ?thesis
      by (simp add: map_delete_def getAllRelationships_def)
  qed
qed

lemma length_all_map_set_present:
  "map_get idx k = Some prev \<Longrightarrow>
     length (getAllRelationships (map_set k v idx)) + length prev
       = length (getAllRelationships idx) + length v"
  by (induction idx) (auto simp: map_get_def getAllRelationships_def)

lemma renameFile_eq:
  "renameFile idx oldName newName =
     map (\<lambda>e. (fst e, map (rename_target (stripExtension oldName) (stripExtension newName)) (snd e)))
       (case map_get idx (stripExtension oldName) of
          None \<Rightarrow> idx
        | Some rels \<Rightarrow>
            map_set (stripExtension newName)
              (map (rename_source (stripExtension oldName) (stripExtension newName)) rels)
              (map_delete (stripExtension oldName) idx))"
  by (simp add: renameFile_def Let_def retarget_entry_eq [abs_def])

text \<open>
  The new name is read as a template, in which \<^verbatim>\<open>$$\<close>, \<^verbatim>\<open>$&\<close>, \<^verbatim>\<open>$`\<close> and \<^verbatim>\<open>$'\<close>
  are patterns and every other dollar sign stands for itself: renaming \<^verbatim>\<open>A.md\<close> to
  \<^verbatim>\<open>B$&.md\<close> turns the id \<^verbatim>\<open>A:1:0\<close> into \<^verbatim>\<open>BA:1:0\<close>, where \<^verbatim>\<open>$&\<close> has become the
  old name. The statement about ids below is therefore made for new names that hold none
  of the four patterns.
\<close>

lemma renameFile_reads_new_name_as_template:
  "renameFile
     [(''A'', [\<lparr>rel_id = ''A:1:0'', sourceFile = ''A'', targetFile = ''X'',
               direction = Outgoing, label = None, line = 1\<rparr>])]
     ''A.md'' ''B$&.md''
     = [(''B$&'', [\<lparr>rel_id = ''BA:1:0'', sourceFile = ''B$&'', targetFile = ''X'',
                    direction = Outgoing, label = None, line = 1\<rparr>])]"
  by code_simp

text \<open>
  C1, as stated, fails where the new key already has an entry of its own: \<^verbatim>\<open>set(newKey, ...)\<close>
  replaces that entry, as \<^verbatim>\<open>reindexFile\<close> would, and its relationships are gone. Here the
  index holds \<open>A \<rightarrow> X\<close> and \<open>B \<rightarrow> Y\<close>; after renaming \<open>A\<close> to \<open>B\<close> only
  the former is left.
\<close>

theorem renameFile_onto_existing_key_counterexample:
  "getAllRelationships
     [(''A'', [\<lparr>rel_id = ''A:1:0'', sourceFile = ''A'', targetFile = ''X'',
               direction = Outgoing, label = None, line = 1\<rparr>]),
      (''B'', [\<lparr>rel_id = ''B:1:0'', sourceFile = ''B'', targetFile = ''Y'',
               direction = Outgoing, label = None, line = 1\<rparr>])]
     = [\<lparr>rel_id = ''A:1:0'', sourceFile = ''A'', targetFile = ''X'',
          direction = Outgoing, label = None, line = 1\<rparr>,
        \<lparr>rel_id = ''B:1:0'', sourceFile = ''B'', targetFile = ''Y'',
          direction = Outgoing, label = None, line = 1\<rparr>]
   \<and> getAllRelationships
       (renameFile
          [(''A'', [\<lparr>rel_id = ''A:1:0'', sourceFile = ''A'', targetFile = ''X'',
                    direction = Outgoing, label = None, line = 1\<rparr>]),
           (''B'', [\<lparr>rel_id = ''B:1:0'', sourceFile = ''B'', targetFile = ''Y'',
                    direction = Outgoing, label = None, line = 1\<rparr>])]
          ''A.md'' ''B.md'')
     = [\<lparr>rel_id = ''B:1:0'', sourceFile = ''B'', targetFile = ''X'',
          direction = Outgoing, label = None, line = 1\<rparr>]"
  by code_simp

text \<open>
  C1, amended. Let the keys be the two names without extension. For every index, after
  \<^verbatim>\<open>renameFile\<close>:
  the list that was under the old key is under the new key, with the same length and
  order, in place of any list the new key held before; each relationship in it has
  \<open>sourceFile\<close> the new key, its other fields kept (a target naming the old key names the
  new one), and, when the new key holds none of the patterns \<^verbatim>\<open>$$\<close>, \<^verbatim>\<open>$&\<close>, \<^verbatim>\<open>$`\<close>,
  \<^verbatim>\<open>$'\<close>, an id made from the old key turned into the id made from the new key with the
  same line and occurrence; the old key has no entry, unless it is the new key;
  every entry under a key other than the old and the new one (and the entry of the new
  key too, when the old key has none) keeps its ids and sources and has each target that
  named the old key renamed; no entry appears under any further key.
  In an index that holds each key once, every key is still held once, and the number of
  relationships is unchanged unless the old key and a different new key both had an
  entry: then it drops by the length of the list the new key held, which is the list
  that was replaced.
\<close>

theorem renameFile_moves_and_retargets:
  fixes idx :: index and oldName newName :: string
  defines "oldKey \<equiv> stripExtension oldName"
  defines "newKey \<equiv> stripExtension newName"
  defines "idx' \<equiv> renameFile idx oldName newName"
  shows "(\<forall>rels. map_get idx oldKey = Some rels \<longrightarrow>
            (\<exists>rels'. map_get idx' newKey = Some rels' \<and> length rels' = length rels
               \<and> (\<forall>i < length rels.
                     sourceFile (rels' ! i) = newKey
                   \<and> (\<not> sublist ''$$'' newKey \<and> \<not> sublist ''$&'' newKey
                      \<and> \<not> sublist [CHR ''$'', CHR 0x60] newKey
                      \<and> \<not> sublist [CHR ''$'', CHR 0x27] newKey \<longrightarrow>
                        (\<forall>lineNo k. rel_id (rels ! i) = generateId oldKey lineNo k
                           \<longrightarrow> rel_id (rels' ! i) = generateId newKey lineNo k))
                   \<and> targetFile (rels' ! i)
                       = (if targetFile (rels ! i) = oldKey then newKey else targetFile (rels ! i))
                   \<and> direction (rels' ! i) = direction (rels ! i)
                   \<and> label (rels' ! i) = label (rels ! i)
                   \<and> line (rels' ! i) = line (rels ! i)))
            \<and> (newKey \<noteq> oldKey \<longrightarrow> map_get idx' oldKey = None))
       \<and> (\<forall>k rels. k \<noteq> oldKey \<and> (k \<noteq> newKey \<or> map_get idx oldKey = None)
                  \<and> map_get idx k = Some rels \<longrightarrow>
            (\<exists>rels'. map_get idx' k = Some rels' \<and> length rels' = length rels
               \<and> (\<forall>i < length rels.
                     rel_id (rels' ! i) = rel_id (rels ! i)
                   \<and> sourceFile (rels' ! i) = sourceFile (rels ! i)
                   \<and> targetFile (rels' ! i)
                       = (if targetFile (rels ! i) = oldKey then newKey else targetFile (rels ! i))
                   \<and> direction (rels' ! i) = direction (rels ! i)
                   \<and> label (rels' ! i) = label (rels ! i)
                   \<and> line (rels' ! i) = line (rels ! i))))
       \<and> (\<forall>k. k \<noteq> newKey \<and> map_get idx k = None \<longrightarrow> map_get idx' k = None)
       \<and> (distinct (map fst idx) \<longrightarrow>
            distinct (map fst idx')
          \<and> (newKey = oldKey \<or> map_get idx newKey = None \<or> map_get idx oldKey = None \<longrightarrow>
                length (getAllRelationships idx') = length (getAllRelationships idx))
          \<and> (\<forall>rels prev. newKey \<noteq> oldKey \<and> map_get idx oldKey = Some rels
                  \<and> map_get idx newKey = Some prev \<longrightarrow>
                length (getAllRelationships idx') + length prev
                  = length (getAllRelationships idx)))"
proof -
  let ?rt = "rename_target oldKey newKey"
  let ?rs = "rename_source oldKey newKey"
  define moved where "moved = (case map_get idx oldKey of None \<Rightarrow> idx
                | Some rels \<Rightarrow> map_set newKey (map ?rs rels) (map_delete oldKey idx))"
  have idx': "idx' = map (\<lambda>e. (fst e, map ?rt (snd e))) moved"
    unfolding idx'_def oldKey_def newKey_def moved_def by (rule renameFile_eq)
  have get': "map_get idx' k = map_option (map ?rt) (map_get moved k)" for k
    unfolding idx' by (rule map_get_map_entries)
  have moved_get: "map_get moved k =
      (case map_get idx oldKey of None \<Rightarrow> map_get idx k
       | Some rels \<Rightarrow> if k = newKey then Some (map ?rs rels)
                      else if k = oldKey then None else map_get idx k)" for k
    by (simp add: moved_def map_get_map_set map_get_map_delete split: option.split)
  have part1: "\<forall>rels. map_get idx oldKey = Some rels \<longrightarrow>
            (\<exists>rels'. map_get idx' newKey = Some rels' \<and> length rels' = length rels
               \<and> (\<forall>i < length rels.
                     sourceFile (rels' ! i) = newKey
                   \<and> (\<not> sublist ''$$'' newKey \<and> \<not> sublist ''$&'' newKey
                      \<and> \<not> sublist [CHR ''$'', CHR 0x60] newKey
                      \<and> \<not> sublist [CHR ''$'', CHR 0x27] newKey \<longrightarrow>
                        (\<forall>lineNo k. rel_id (rels ! i) = generateId oldKey lineNo k
                           \<longrightarrow> rel_id (rels' ! i) = generateId newKey lineNo k))
                   \<and> targetFile (rels' ! i)
                       = (if targetFile (rels ! i) = oldKey then newKey else targetFile (rels ! i))
                   \<and> direction (rels' ! i) = direction (rels ! i)
                   \<and> label (rels' ! i) = label (rels ! i)
                   \<and> line (rels' ! i) = line (rels ! i)))
            \<and> (newKey \<noteq> oldKey \<longrightarrow> map_get idx' oldKey = None)"
  proof (intro allI impI conjI)
    fix rels assume old: "map_get idx oldKey = Some rels"
    have new: "map_get idx' newKey = Some (map ?rt (map ?rs rels))"
      by (simp add: get' moved_get old)
    have each: "sourceFile (map ?rt (map ?rs rels) ! i) = newKey
        \<and> (\<not> sublist ''$$'' newKey \<and> \<not> sublist ''$&'' newKey
            \<and> \<not> sublist [CHR ''$'', CHR 0x60] newKey
            \<and> \<not> sublist [CHR ''$'', CHR 0x27] newKey \<longrightarrow>
              (\<forall>lineNo k. rel_id (rels ! i) = generateId oldKey lineNo k
                 \<longrightarrow> rel_id (map ?rt (map ?rs rels) ! i) = generateId newKey lineNo k))
        \<and> targetFile (map ?rt (map ?rs rels) ! i)
            = (if targetFile (rels ! i) = oldKey then newKey else targetFile (rels ! i))
        \<and> direction (map ?rt (map ?rs rels) ! i) = direction (rels ! i)
        \<and> label (map ?rt (map ?rs rels) ! i) = label (rels ! i)
        \<and> line (map ?rt (map ?rs rels) ! i) = line (rels ! i)" if "i < length rels" for i
      using that by (simp add: rename_target_def rename_source_def replace_generateId_literal)
    from new each show "\<exists>rels'. map_get idx' newKey = Some rels' \<and> length rels' = length rels
               \<and> (\<forall>i < length rels.
                     sourceFile (rels' ! i) = newKey
                   \<and> (\<not> sublist ''$$'' newKey \<and> \<not> sublist ''$&'' newKey
                      \<and> \<not> sublist [CHR ''$'', CHR 0x60] newKey
                      \<and> \<not> sublist [CHR ''$'', CHR 0x27] newKey \<longrightarrow>
                        (\<forall>lineNo k. rel_id (rels ! i) = generateId oldKey lineNo k
                           \<longrightarrow> rel_id (rels' ! i) = generateId newKey lineNo k))
                   \<and> targetFile (rels' ! i)
                       = (if targetFile (rels ! i) = oldKey then newKey else targetFile (rels ! i))
                   \<and> direction (rels' ! i) = direction (rels ! i)
                   \<and> label (rels' ! i) = label (rels ! i)
                   \<and> line (rels' ! i) = line (rels ! i))"
      by (intro exI [of _ "map ?rt (map ?rs rels)"]) simp
    assume "newKey \<noteq> oldKey"
    then show "map_get idx' oldKey = None"
      by (simp add: get' moved_get old)
  qed
  have part2: "\<forall>k rels. k \<noteq> oldKey \<and> (k \<noteq> newKey \<or> map_get idx oldKey = None)
                  \<and> map_get idx k = Some rels \<longrightarrow>
            (\<exists>rels'. map_get idx' k = Some rels' \<and> length rels' = length rels
               \<and> (\<forall>i < length rels.
                     rel_id (rels' ! i) = rel_id (rels ! i)
                   \<and> sourceFile (rels' ! i) = sourceFile (rels ! i)
                   \<and> targetFile (rels' ! i)
                       = (if targetFile (rels ! i) = oldKey then newKey else targetFile (rels ! i))
                   \<and> direction (rels' ! i) = direction (rels ! i)
                   \<and> label (rels' ! i) = label (rels ! i)
                   \<and> line (rels' ! i) = line (rels ! i)))"
  proof (intro allI impI)
    fix k rels
    assume a: "k \<noteq> oldKey \<and> (k \<noteq> newKey \<or> map_get idx oldKey = None)
                  \<and> map_get idx k = Some rels"
    then have "map_get moved k = Some rels"
      by (auto simp: moved_get split: option.split)
    then have "map_get idx' k = Some (map ?rt rels)"
      by (simp add: get')
    then show "\<exists>rels'. map_get idx' k = Some rels' \<and> length rels' = length rels
               \<and> (\<forall>i < length rels.
                     rel_id (rels' ! i) = rel_id (rels ! i)
                   \<and> sourceFile (rels' ! i) = sourceFile (rels ! i)
                   \<and> targetFile (rels' ! i)
                       = (if targetFile (rels ! i) = oldKey then newKey else targetFile (rels ! i))
                   \<and> direction (rels' ! i) = direction (rels ! i)
                   \<and> label (rels' ! i) = label (rels ! i)
                   \<and> line (rels' ! i) = line (rels ! i))"
      by (intro exI [of _ "map ?rt rels"]) (simp add: rename_target_def)
  qed
  have part3: "\<forall>k. k \<noteq> newKey \<and> map_get idx k = None \<longrightarrow> map_get idx' k = None"
    by (auto simp: get' moved_get split: option.split)
  have len': "length (getAllRelationships idx') = length (getAllRelationships moved)"
    unfolding idx' by (rule length_all_map_entries)
  have part4: "distinct (map fst idx')
          \<and> (newKey = oldKey \<or> map_get idx newKey = None \<or> map_get idx oldKey = None \<longrightarrow>
                length (getAllRelationships idx') = length (getAllRelationships idx))
          \<and> (\<forall>rels prev. newKey \<noteq> oldKey \<and> map_get idx oldKey = Some rels
                  \<and> map_get idx newKey = Some prev \<longrightarrow>
                length (getAllRelationships idx') + length prev
                  = length (getAllRelationships idx))" if keys: "distinct (map fst idx)"
  proof (intro conjI impI allI)
    have "distinct (map fst moved)"
      using keys by (simp add: moved_def distinct_map_set distinct_map_delete split: option.split)
    then show "distinct (map fst idx')"
      unfolding idx' by (simp only: keys_map_entries)
  next
    assume fresh: "newKey = oldKey \<or> map_get idx newKey = None \<or> map_get idx oldKey = None"
    have "length (getAllRelationships moved) = length (getAllRelationships idx)"
    proof (cases "map_get idx oldKey")
      case None
      then show ?thesis by (simp add: moved_def)
    next
      case (Some rels)
      with fresh have "newKey \<notin> fst ` set (map_delete oldKey idx)"
        by (auto simp: map_get_None_iff map_delete_def)
      then have "map_set newKey (map ?rs rels) (map_delete oldKey idx)
          = map_delete oldKey idx @ [(newKey, map ?rs rels)]"
        by (rule map_set_fresh)
      with Some length_all_map_delete [OF keys Some] show ?thesis
        by (simp add: moved_def getAllRelationships_def)
    qed
    with len' show "length (getAllRelationships idx') = length (getAllRelationships idx)"
      by simp
  next
    fix rels prev
    assume c: "newKey \<noteq> oldKey \<and> map_get idx oldKey = Some rels \<and> map_get idx newKey = Some prev"
    then have old: "map_get idx oldKey = Some rels"
      and there: "map_get (map_delete oldKey idx) newKey = Some prev"
      by (simp_all add: map_get_map_delete)
    from length_all_map_set_present [OF there, of "map ?rs rels"]
    have "length (getAllRelationships moved) + length prev
        = length (getAllRelationships (map_delete oldKey idx)) + length rels"
      by (simp add: moved_def old)
    with length_all_map_delete [OF keys old] len'
    show "length (getAllRelationships idx') + length prev = length (getAllRelationships idx)"
      by simp
  qed
  from part1 part2 part3 part4 show ?thesis
    by (intro conjI impI) blast+
qed

theorem renameFile_moves_and_retargets_witness:
  "distinct (map fst
       [(''A'', [\<lparr>rel_id = ''A:1:0'', sourceFile = ''A'', targetFile = ''B'',
                  direction = Outgoing, label = None, line = 1\<rparr>]),
        (''B'', [\<lparr>rel_id = ''B:2:0'', sourceFile = ''B'', targetFile = ''A'',
                  direction = Undirected, label = Some ''x'', line = 2\<rparr>])])
   \<and> \<not> sublist ''$$'' ''US$5'' \<and> \<not> sublist ''$&'' ''US$5''
   \<and> \<not> sublist [CHR ''$'', CHR 0x60] ''US$5'' \<and> \<not> sublist [CHR ''$'', CHR 0x27] ''US$5''
   \<and> sourceFile (hd (the (map_get
       (renameFile
          [(''A'', [\<lparr>rel_id = ''A:1:0'', sourceFile = ''A'', targetFile = ''B'',
                     direction = Outgoing, label = None, line = 1\<rparr>]),
           (''B'', [\<lparr>rel_id = ''B:2:0'', sourceFile = ''B'', targetFile = ''A'',
                     direction = Undirected, label = Some ''x'', line = 2\<rparr>])]
          ''A.md'' ''US$5.md'') ''US$5''))) = ''US$5''
   \<and> rel_id (hd (the (map_get
       (renameFile
          [(''A'', [\<lparr>rel_id = ''A:1:0'', sourceFile = ''A'', targetFile = ''B'',
                     direction = Outgoing, label = None, line = 1\<rparr>]),
           (''B'', [\<lparr>rel_id = ''B:2:0'', sourceFile = ''B'', targetFile = ''A'',
                     direction = Undirected, label = Some ''x'', line = 2\<rparr>])]
          ''A.md'' ''US$5.md'') ''US$5''))) = ''US$5:1:0''
   \<and> length (getAllRelationships
       (renameFile
          [(''A'', [\<lparr>rel_id = ''A:1:0'', sourceFile = ''A'', targetFile = ''B'',
                     direction = Outgoing, label = None, line = 1\<rparr>]),
           (''B'', [\<lparr>rel_id = ''B:2:0'', sourceFile = ''B'', targetFile = ''A'',
                     direction = Undirected, label = Some ''x'', line = 2\<rparr>])]
          ''A.md'' ''US$5.md'')) = 2
   \<and> length (getAllRelationships
       (renameFile
          [(''A'', [\<lparr>rel_id = ''A:1:0'', sourceFile = ''A'', targetFile = ''B'',
                     direction = Outgoing, label = None, line = 1\<rparr>]),
           (''B'', [\<lparr>rel_id = ''B:2:0'', sourceFile = ''B'', targetFile = ''A'',
                     direction = Undirected, label = Some ''x'', line = 2\<rparr>])]
          ''A.md'' ''B.md'')) + 1 = 2"
proof -
  let ?rA = "\<lparr>rel_id = ''A:1:0'', sourceFile = ''A'', targetFile = ''B'',
                  direction = Outgoing, label = None, line = 1\<rparr>"
  let ?rB = "\<lparr>rel_id = ''B:2:0'', sourceFile = ''B'', targetFile = ''A'',
                  direction = Undirected, label = Some ''x'', line = 2\<rparr>"
  let ?idx = "[(''A'', [?rA]), (''B'', [?rB])]"
  let ?moved = "renameFile ?idx ''A.md'' ''US$5.md''"
  have keys: "stripExtension ''A.md'' = ''A''" "stripExtension ''US$5.md'' = ''US$5''"
      "stripExtension ''B.md'' = ''B''"
    by code_simp+
  have h1: "distinct (map fst ?idx)"
    by simp
  have lit: "\<not> sublist ''$$'' ''US$5'' \<and> \<not> sublist ''$&'' ''US$5''
      \<and> \<not> sublist [CHR ''$'', CHR 0x60] ''US$5'' \<and> \<not> sublist [CHR ''$'', CHR 0x27] ''US$5''"
    by (simp add: sublist_Cons_right)
  have old: "map_get ?idx ''A'' = Some [?rA]"
    by (simp add: map_get_def)
  have new: "map_get ?idx ''US$5'' = None"
    by (simp add: map_get_def)
  have there: "map_get ?idx ''B'' = Some [?rB]"
    by (simp add: map_get_def)
  have id_old: "rel_id ([?rA] ! 0) = generateId ''A'' 1 0"
    by code_simp
  have id_new: "generateId ''US$5'' 1 0 = ''US$5:1:0''"
    by code_simp
  note fact = renameFile_moves_and_retargets
    [where idx = ?idx and oldName = "''A.md''" and newName = "''US$5.md''", unfolded keys]
  from fact [THEN conjunct1, rule_format, OF old, THEN conjunct1]
  obtain rels' where got: "map_get ?moved ''US$5'' = Some rels'"
    and len: "length rels' = length [?rA]"
    and each: "\<forall>i < length [?rA].
        sourceFile (rels' ! i) = ''US$5''
      \<and> (\<not> sublist ''$$'' ''US$5'' \<and> \<not> sublist ''$&'' ''US$5''
          \<and> \<not> sublist [CHR ''$'', CHR 0x60] ''US$5''
          \<and> \<not> sublist [CHR ''$'', CHR 0x27] ''US$5'' \<longrightarrow>
            (\<forall>lineNo k. rel_id ([?rA] ! i) = generateId ''A'' lineNo k
               \<longrightarrow> rel_id (rels' ! i) = generateId ''US$5'' lineNo k))
      \<and> targetFile (rels' ! i)
          = (if targetFile ([?rA] ! i) = ''A'' then ''US$5'' else targetFile ([?rA] ! i))
      \<and> direction (rels' ! i) = direction ([?rA] ! i)
      \<and> label (rels' ! i) = label ([?rA] ! i)
      \<and> line (rels' ! i) = line ([?rA] ! i)"
    by (elim exE conjE)
  have zero: "0 < length [?rA]"
    by simp
  note at0 = each [rule_format, OF zero]
  from len have hd0: "hd rels' = rels' ! 0"
    by (cases rels') simp_all
  from at0 [THEN conjunct1] hd0 got
  have src: "sourceFile (hd (the (map_get ?moved ''US$5''))) = ''US$5''"
    by simp
  from at0 [THEN conjunct2, THEN conjunct1, rule_format, OF lit id_old]
  have "rel_id (rels' ! 0) = ''US$5:1:0''"
    by (simp only: id_new)
  with hd0 got have ident: "rel_id (hd (the (map_get ?moved ''US$5''))) = ''US$5:1:0''"
    by simp
  have fresh: "''US$5'' = ''A'' \<or> map_get ?idx ''US$5'' = None \<or> map_get ?idx ''A'' = None"
    using new by (intro disjI2 disjI1)
  from fact [THEN conjunct2, THEN conjunct2, THEN conjunct2, rule_format, OF h1,
      THEN conjunct2, THEN conjunct1, rule_format, OF fresh]
  have "length (getAllRelationships ?moved) = length (getAllRelationships ?idx)" .
  then have count: "length (getAllRelationships ?moved) = 2"
    by (simp add: getAllRelationships_def)
  note fact2 = renameFile_moves_and_retargets
    [where idx = ?idx and oldName = "''A.md''" and newName = "''B.md''", unfolded keys]
  have coll: "''B'' \<noteq> ''A'' \<and> map_get ?idx ''A'' = Some [?rA] \<and> map_get ?idx ''B'' = Some [?rB]"
    using old there by simp
  from fact2 [THEN conjunct2, THEN conjunct2, THEN conjunct2, rule_format, OF h1,
      THEN conjunct2, THEN conjunct2, rule_format, OF coll]
  have "length (getAllRelationships (renameFile ?idx ''A.md'' ''B.md'')) + length [?rB]
      = length (getAllRelationships ?idx)" .
  then have lost: "length (getAllRelationships (renameFile ?idx ''A.md'' ''B.md'')) + 1 = 2"
    by (simp add: getAllRelationships_def)
  from h1 lit src ident count lost show ?thesis
    by (intro conjI) simp_all
qed

section \<open>Layout continuity\<close>

lemma fold_node_map_other:
  "k \<notin> node_id ` set ns \<Longrightarrow> fold (\<lambda>n m. m(node_id n \<mapsto> n)) ns m0 k = m0 k"
  by (induction ns arbitrary: m0) auto

lemma fold_node_map_member:
  fixes ns :: "graph_node list"
  shows "distinct (map node_id ns) \<Longrightarrow> e \<in> set ns
     \<Longrightarrow> fold (\<lambda>n m. m(node_id n \<mapsto> n)) ns m0 (node_id e) = Some e"
proof (induction ns arbitrary: m0)
  case Nil
  then show ?case by simp
next
  case (Cons a ns)
  let ?F = "\<lambda>(n :: graph_node) (m :: string \<Rightarrow> graph_node option). m(node_id n \<mapsto> n)"
  have step: "fold ?F (a # ns) m0 = fold ?F ns (m0(node_id a \<mapsto> a))"
    by (simp only: fold_simps)
  show ?case
  proof (cases "e = a")
    case True
    from Cons.prems(1) have "node_id a \<notin> node_id ` set ns"
      by simp
    then have "fold ?F ns (m0(node_id a \<mapsto> a)) (node_id a) = (m0(node_id a \<mapsto> a)) (node_id a)"
      by (rule fold_node_map_other)
    also have "\<dots> = Some a"
      by simp
    finally show ?thesis
      by (simp only: step True)
  next
    case False
    with Cons.prems have "distinct (map node_id ns)" and "e \<in> set ns"
      by simp_all
    then have "fold ?F ns (m0(node_id a \<mapsto> a)) (node_id e) = Some e"
      by (rule Cons.IH)
    then show ?thesis
      by (simp only: step)
  qed
qed

lemma old_node_map_member:
  "distinct (map node_id ns) \<Longrightarrow> e \<in> set ns \<Longrightarrow> old_node_map ns (node_id e) = Some e"
  by (simp add: old_node_map_def fold_node_map_member)

lemma old_node_map_other: "k \<notin> node_id ` set ns \<Longrightarrow> old_node_map ns k = None"
  by (simp add: old_node_map_def fold_node_map_other)

lemma make_nodes_member:
  assumes "m \<in> set (make_nodes old ex w h rnd n ids)"
  shows "\<exists>j. node_x m = Some (case (case old (node_id m) of None \<Rightarrow> None | Some e \<Rightarrow> node_x e) of
                                 None \<Rightarrow> seed w (rnd j) | Some v \<Rightarrow> v)
           \<and> node_y m = Some (case (case old (node_id m) of None \<Rightarrow> None | Some e \<Rightarrow> node_y e) of
                                 None \<Rightarrow> seed h (rnd (case (case old (node_id m) of None \<Rightarrow> None
                                                            | Some e \<Rightarrow> node_x e) of
                                                        None \<Rightarrow> j + 1 | Some v \<Rightarrow> j))
                               | Some v \<Rightarrow> v)
           \<and> node_vx m = (case old (node_id m) of None \<Rightarrow> None | Some e \<Rightarrow> node_vx e)
           \<and> node_vy m = (case old (node_id m) of None \<Rightarrow> None | Some e \<Rightarrow> node_vy e)"
  using assms
proof (induction ids arbitrary: n)
  case Nil
  then show ?case by simp
next
  case (Cons i ids)
  define px where "px = (case old i of None \<Rightarrow> None | Some e \<Rightarrow> node_x e)"
  define py where "py = (case old i of None \<Rightarrow> None | Some e \<Rightarrow> node_y e)"
  define n1 where "n1 = (case px of None \<Rightarrow> n + 1 | Some v \<Rightarrow> n)"
  define n2 where "n2 = (case py of None \<Rightarrow> n1 + 1 | Some v \<Rightarrow> n1)"
  define hd_node where "hd_node =
     \<lparr>node_id = i, isGhost = (i \<notin> ex),
      node_x = Some (case px of None \<Rightarrow> seed w (rnd n) | Some v \<Rightarrow> v),
      node_y = Some (case py of None \<Rightarrow> seed h (rnd n1) | Some v \<Rightarrow> v),
      node_vx = (case old i of None \<Rightarrow> None | Some e \<Rightarrow> node_vx e),
      node_vy = (case old i of None \<Rightarrow> None | Some e \<Rightarrow> node_vy e)\<rparr>"
  have unfold: "make_nodes old ex w h rnd n (i # ids) = hd_node # make_nodes old ex w h rnd n2 ids"
    unfolding hd_node_def n2_def n1_def py_def px_def by (simp add: Let_def)
  from Cons.prems consider "m = hd_node" | "m \<in> set (make_nodes old ex w h rnd n2 ids)"
    unfolding unfold by auto
  then show ?case
  proof cases
    case 1
    then have id: "node_id m = i"
      and fx: "node_x m = Some (case px of None \<Rightarrow> seed w (rnd n) | Some v \<Rightarrow> v)"
      and fy: "node_y m = Some (case py of None \<Rightarrow> seed h (rnd n1) | Some v \<Rightarrow> v)"
      and fvx: "node_vx m = (case old i of None \<Rightarrow> None | Some e \<Rightarrow> node_vx e)"
      and fvy: "node_vy m = (case old i of None \<Rightarrow> None | Some e \<Rightarrow> node_vy e)"
      by (simp_all add: hd_node_def)
    show ?thesis
      unfolding id fx fy fvx fvy n1_def py_def px_def
      by (intro exI [of _ n] conjI refl)
  next
    case 2
    then show ?thesis
      by (rule Cons.IH)
  qed
qed

lemma make_nodes_previous:
  assumes "m \<in> set (make_nodes old ex w h rnd n ids)" and "old (node_id m) = Some e"
    and "node_x e \<noteq> None" and "node_y e \<noteq> None"
  shows "node_x m = node_x e \<and> node_y m = node_y e
       \<and> node_vx m = node_vx e \<and> node_vy m = node_vy e"
proof -
  from assms(3,4) obtain vx vy where "node_x e = Some vx" and "node_y e = Some vy"
    by blast
  with make_nodes_member [OF assms(1)] assms(2) show ?thesis
    by simp
qed


lemma make_nodes_fresh:
  assumes "m \<in> set (make_nodes old ex w h rnd n ids)" and "old (node_id m) = None"
  shows "(\<exists>j. node_x m = Some (seed w (rnd j)) \<and> node_y m = Some (seed h (rnd (j + 1))))
       \<and> node_vx m = None \<and> node_vy m = None"
  using make_nodes_member [OF assms(1)] assms(2) by simp blast


lemma make_nodes_placed:
  "list_all (\<lambda>e. node_x e \<noteq> None \<and> node_y e \<noteq> None) (make_nodes old ex w h rnd n ids)"
  by (induction ids arbitrary: n) (simp_all add: Let_def)

lemma distinct_set_add: "distinct xs \<Longrightarrow> distinct (set_add x xs)"
  by (simp add: set_add_def)

lemma distinct_fold_set_add: "distinct acc \<Longrightarrow> distinct (fold set_add xs acc)"
  by (induction xs arbitrary: acc) (simp_all add: distinct_set_add)

lemma distinct_fold_endpoints:
  "distinct acc \<Longrightarrow>
     distinct (fold (\<lambda>r nodeSet. set_add (targetFile r) (set_add (sourceFile r) nodeSet)) rs acc)"
  by (induction rs arbitrary: acc) (simp_all add: distinct_set_add)

lemma distinct_node_names: "distinct (node_names nodeNames filtered)"
  by (simp add: node_names_def distinct_fold_endpoints distinct_fold_set_add)

lemma seed_near: "0 \<le> r \<Longrightarrow> r < 1 \<Longrightarrow> \<bar>seed extent r - extent / 2\<bar> \<le> 50"
  by (simp add: seed_def abs_le_iff)

text \<open>
  C9. The node list of a renderer holds each identifier once and every node in it has a
  position; both hold of the empty list a renderer starts with and of every list
  \<^verbatim>\<open>update\<close> builds. From such a list \<^verbatim>\<open>update\<close> gives every node whose identifier was
  in the list the position and velocity of the previous node of that identifier; a node
  whose identifier was not in the list has no velocity and the position
  \<^verbatim>\<open>width / 2 + (Math.random() - 0.5) * 100\<close>, \<^verbatim>\<open>height / 2 + (Math.random() - 0.5) * 100\<close>
  from two consecutive random numbers, which is within 50 of the centre in each coordinate
  when the random numbers lie in the unit interval.
\<close>

theorem update_keeps_positions:
  fixes st :: renderer and rnd :: "nat \<Rightarrow> real"
    and nodeNames :: "string list" and relationships :: "relationship list"
  defines "st' \<equiv> update st rnd nodeNames relationships"
  assumes ids: "distinct (map node_id (nodes st))"
    and placed: "list_all (\<lambda>e. node_x e \<noteq> None \<and> node_y e \<noteq> None) (nodes st)"
  shows "(\<forall>e \<in> set (nodes st). \<forall>n \<in> set (nodes st'). node_id n = node_id e \<longrightarrow>
            node_x n = node_x e \<and> node_y n = node_y e
          \<and> node_vx n = node_vx e \<and> node_vy n = node_vy e)
       \<and> (\<forall>n \<in> set (nodes st'). node_id n \<notin> node_id ` set (nodes st) \<longrightarrow>
            (\<exists>j. node_x n = Some (width st / 2 + (rnd j - 0.5) * 100)
                \<and> node_y n = Some (height st / 2 + (rnd (j + 1) - 0.5) * 100)
                \<and> (0 \<le> rnd j \<and> rnd j < 1 \<and> 0 \<le> rnd (j + 1) \<and> rnd (j + 1) < 1 \<longrightarrow>
                      \<bar>the (node_x n) - width st / 2\<bar> \<le> 50
                    \<and> \<bar>the (node_y n) - height st / 2\<bar> \<le> 50))
          \<and> node_vx n = None \<and> node_vy n = None)
       \<and> distinct (map node_id (nodes st'))
       \<and> list_all (\<lambda>e. node_x e \<noteq> None \<and> node_y e \<noteq> None) (nodes st')"
proof -
  define filtered where "filtered = filter_by_label (labelFilter st) relationships"
  define names where "names = node_names nodeNames filtered"
  have nodes': "nodes st'
      = make_nodes (old_node_map (nodes st)) (existingFiles st) (width st) (height st) rnd 0 names"
    by (simp add: st'_def update_def Let_def names_def filtered_def)
  have kept: "\<forall>e \<in> set (nodes st). \<forall>n \<in> set (nodes st'). node_id n = node_id e \<longrightarrow>
            node_x n = node_x e \<and> node_y n = node_y e
          \<and> node_vx n = node_vx e \<and> node_vy n = node_vy e"
  proof (intro ballI impI)
    fix e n
    assume e: "e \<in> set (nodes st)" and n: "n \<in> set (nodes st')" and same: "node_id n = node_id e"
    from old_node_map_member [OF ids e] same
    have old: "old_node_map (nodes st) (node_id n) = Some e"
      by simp
    from placed e have "node_x e \<noteq> None" and "node_y e \<noteq> None"
      by (simp_all add: list_all_iff)
    with n old show "node_x n = node_x e \<and> node_y n = node_y e
          \<and> node_vx n = node_vx e \<and> node_vy n = node_vy e"
      unfolding nodes' by (rule make_nodes_previous)
  qed
  have seeded: "\<forall>n \<in> set (nodes st'). node_id n \<notin> node_id ` set (nodes st) \<longrightarrow>
            (\<exists>j. node_x n = Some (width st / 2 + (rnd j - 0.5) * 100)
                \<and> node_y n = Some (height st / 2 + (rnd (j + 1) - 0.5) * 100)
                \<and> (0 \<le> rnd j \<and> rnd j < 1 \<and> 0 \<le> rnd (j + 1) \<and> rnd (j + 1) < 1 \<longrightarrow>
                      \<bar>the (node_x n) - width st / 2\<bar> \<le> 50
                    \<and> \<bar>the (node_y n) - height st / 2\<bar> \<le> 50))
          \<and> node_vx n = None \<and> node_vy n = None"
  proof (intro ballI impI)
    fix n
    assume n: "n \<in> set (nodes st')" and new: "node_id n \<notin> node_id ` set (nodes st)"
    from new have "old_node_map (nodes st) (node_id n) = None"
      by (rule old_node_map_other)
    with n have "(\<exists>j. node_x n = Some (seed (width st) (rnd j))
                     \<and> node_y n = Some (seed (height st) (rnd (j + 1))))
         \<and> node_vx n = None \<and> node_vy n = None"
      unfolding nodes' by (rule make_nodes_fresh)
    then obtain j where x: "node_x n = Some (seed (width st) (rnd j))"
        and y: "node_y n = Some (seed (height st) (rnd (j + 1)))"
        and v: "node_vx n = None" "node_vy n = None"
      by blast
    have "node_x n = Some (width st / 2 + (rnd j - 0.5) * 100)
        \<and> node_y n = Some (height st / 2 + (rnd (j + 1) - 0.5) * 100)
        \<and> (0 \<le> rnd j \<and> rnd j < 1 \<and> 0 \<le> rnd (j + 1) \<and> rnd (j + 1) < 1 \<longrightarrow>
              \<bar>the (node_x n) - width st / 2\<bar> \<le> 50
            \<and> \<bar>the (node_y n) - height st / 2\<bar> \<le> 50)"
      using x y seed_near [of "rnd j" "width st"] seed_near [of "rnd (j + 1)" "height st"]
      by (simp add: seed_def)
    with v show "(\<exists>j. node_x n = Some (width st / 2 + (rnd j - 0.5) * 100)
                \<and> node_y n = Some (height st / 2 + (rnd (j + 1) - 0.5) * 100)
                \<and> (0 \<le> rnd j \<and> rnd j < 1 \<and> 0 \<le> rnd (j + 1) \<and> rnd (j + 1) < 1 \<longrightarrow>
                      \<bar>the (node_x n) - width st / 2\<bar> \<le> 50
                    \<and> \<bar>the (node_y n) - height st / 2\<bar> \<le> 50))
          \<and> node_vx n = None \<and> node_vy n = None"
      by blast
  qed
  have dist: "distinct (map node_id (nodes st'))"
    unfolding nodes' by (simp add: node_id_make_nodes names_def distinct_node_names)
  have all: "list_all (\<lambda>e. node_x e \<noteq> None \<and> node_y e \<noteq> None) (nodes st')"
    unfolding nodes' by (rule make_nodes_placed)
  from kept seeded dist all show ?thesis
    by (intro conjI)
qed

theorem update_keeps_positions_witness:
  "distinct (map node_id
     [\<lparr>node_id = ''A'', isGhost = False, node_x = Some 10, node_y = Some 20,
       node_vx = Some 1, node_vy = Some 2\<rparr>])
   \<and> list_all (\<lambda>e. node_x e \<noteq> None \<and> node_y e \<noteq> None)
     [\<lparr>node_id = ''A'', isGhost = False, node_x = Some 10, node_y = Some 20,
       node_vx = Some 1, node_vy = Some 2\<rparr>]
   \<and> node_x (hd (nodes (update
          \<lparr>nodes = [\<lparr>node_id = ''A'', isGhost = False, node_x = Some 10, node_y = Some 20,
                      node_vx = Some 1, node_vy = Some 2\<rparr>],
           links = [], width = 800, height = 600, existingFiles = {''A''}, labelFilter = []\<rparr>
          (\<lambda>i. 1 / 4) [''A'', ''B''] []))) = Some 10
   \<and> node_vy (hd (nodes (update
          \<lparr>nodes = [\<lparr>node_id = ''A'', isGhost = False, node_x = Some 10, node_y = Some 20,
                      node_vx = Some 1, node_vy = Some 2\<rparr>],
           links = [], width = 800, height = 600, existingFiles = {''A''}, labelFilter = []\<rparr>
          (\<lambda>i. 1 / 4) [''A'', ''B''] []))) = Some 2
   \<and> nodes (update
          \<lparr>nodes = [\<lparr>node_id = ''A'', isGhost = False, node_x = Some 10, node_y = Some 20,
                      node_vx = Some 1, node_vy = Some 2\<rparr>],
           links = [], width = 800, height = 600, existingFiles = {''A''}, labelFilter = []\<rparr>
          (\<lambda>i. 1 / 4) [''A'', ''B''] [])
     = [\<lparr>node_id = ''A'', isGhost = False, node_x = Some 10, node_y = Some 20,
          node_vx = Some 1, node_vy = Some 2\<rparr>,
        \<lparr>node_id = ''B'', isGhost = True, node_x = Some 375, node_y = Some 275,
          node_vx = None, node_vy = None\<rparr>]"
proof -
  let ?a = "\<lparr>node_id = ''A'', isGhost = False, node_x = Some (10 :: real), node_y = Some (20 :: real),
       node_vx = Some (1 :: real), node_vy = Some (2 :: real)\<rparr>"
  let ?st = "\<lparr>nodes = [?a], links = [], width = 800, height = 600, existingFiles = {''A''},
       labelFilter = []\<rparr>"
  let ?st' = "update ?st (\<lambda>i. 1 / 4) [''A'', ''B''] []"
  have h1: "distinct (map node_id (nodes ?st))"
    by simp
  have h2: "list_all (\<lambda>e. node_x e \<noteq> None \<and> node_y e \<noteq> None) (nodes ?st)"
    by simp
  note fact = update_keeps_positions [OF h1 h2, where rnd = "\<lambda>i. 1 / 4"
      and nodeNames = "[''A'', ''B'']" and relationships = "[]"]
  have new: "nodes ?st'
     = [?a, \<lparr>node_id = ''B'', isGhost = True, node_x = Some 375, node_y = Some 275,
          node_vx = None, node_vy = None\<rparr>]"
    by (simp add: update_def filter_by_label_def trim_def node_names_def set_add_def
        old_node_map_def seed_def Let_def)
  have a_in: "?a \<in> set (nodes ?st)"
    by simp
  have n_in: "hd (nodes ?st') \<in> set (nodes ?st')"
    by (simp only: new list.sel list.set insertI1)
  have same: "node_id (hd (nodes ?st')) = node_id ?a"
    by (simp only: new list.sel)
  from fact [THEN conjunct1, rule_format, OF a_in n_in same]
  have kept: "node_x (hd (nodes ?st')) = Some 10 \<and> node_vy (hd (nodes ?st')) = Some 2"
    by simp
  from h1 h2 kept new show ?thesis
    by simp
qed

section \<open>Curve offsets of parallel edges\<close>

text \<open>What the counter of \<^verbatim>\<open>update\<close> counts: the link of the relationship at position \<open>i\<close>
  is offset by 30 times the number of earlier relationships with the same joined key.\<close>

lemma make_links_length: "length (make_links ec rs) = length rs"
  by (induction rs arbitrary: ec) (simp_all add: Let_def)

lemma make_links_offset:
  "i < length rs \<Longrightarrow>
     curveOffset (make_links ec rs ! i)
       = ((case ec (edge_key (rs ! i)) of None \<Rightarrow> 0 | Some c \<Rightarrow> c)
          + length (filter (\<lambda>r. edge_key r = edge_key (rs ! i)) (take i rs))) * 30"
proof (induction rs arbitrary: ec i)
  case Nil
  then show ?case by simp
next
  case (Cons r rs)
  show ?case
  proof (cases i)
    case 0
    then show ?thesis by (simp add: Let_def)
  next
    case (Suc i')
    with Cons.prems have "i' < length rs" by simp
    from Cons.IH [OF this] Suc show ?thesis
      by (simp add: Let_def split: option.split)
  qed
qed

text \<open>
  C8 says that the offset counts the earlier relationships with the same unordered pair of
  endpoints, so that the only relationship of a pair is drawn straight. The key of a pair is
  its two identifiers, sorted and joined by \<^verbatim>\<open>--\<close>, and two different pairs can have the
  same key: \<open>a\<close>, \<open>b--c\<close> and \<open>a--b\<close>, \<open>c\<close> both give \<^verbatim>\<open>a--b--c\<close>. With the
  notes \<^verbatim>\<open>a.md\<close> declaring \<^verbatim>\<open><<-+>>[[b--c]]\<close> and \<^verbatim>\<open>a--b.md\<close> declaring
  \<^verbatim>\<open><<-+>>[[c]]\<close>, each pair has one relationship, and the second is given offset 30.
\<close>

theorem curve_offset_key_collision:
  "getAllRelationships
     (reindexFile (reindexFile [] ''a.md'' ''<<-+>>[[b--c]]'') ''a--b.md'' ''<<-+>>[[c]]'')
     = [\<lparr>rel_id = ''a:1:0'', sourceFile = ''a'', targetFile = ''b--c'',
          direction = Outgoing, label = None, line = 1\<rparr>,
        \<lparr>rel_id = ''a--b:1:0'', sourceFile = ''a--b'', targetFile = ''c'',
          direction = Outgoing, label = None, line = 1\<rparr>]
   \<and> map (\<lambda>l. (link_source l, link_target l, curveOffset l))
       (make_links Map.empty
          [\<lparr>rel_id = ''a:1:0'', sourceFile = ''a'', targetFile = ''b--c'',
             direction = Outgoing, label = None, line = 1\<rparr>,
           \<lparr>rel_id = ''a--b:1:0'', sourceFile = ''a--b'', targetFile = ''c'',
             direction = Outgoing, label = None, line = 1\<rparr>])
     = [(''a'', ''b--c'', 0), (''a--b'', ''c'', 30)]
   \<and> map curveOffset
       (links (update
          \<lparr>nodes = [], links = [], width = 800, height = 600,
           existingFiles = {''a'', ''a--b''}, labelFilter = []\<rparr>
          (\<lambda>i. 0)
          [''a'', ''b--c'', ''a--b'', ''c'']
          [\<lparr>rel_id = ''a:1:0'', sourceFile = ''a'', targetFile = ''b--c'',
             direction = Outgoing, label = None, line = 1\<rparr>,
           \<lparr>rel_id = ''a--b:1:0'', sourceFile = ''a--b'', targetFile = ''c'',
             direction = Outgoing, label = None, line = 1\<rparr>]))
     = [0, 30]"
proof (intro conjI)
  show "getAllRelationships
     (reindexFile (reindexFile [] ''a.md'' ''<<-+>>[[b--c]]'') ''a--b.md'' ''<<-+>>[[c]]'')
     = [\<lparr>rel_id = ''a:1:0'', sourceFile = ''a'', targetFile = ''b--c'',
          direction = Outgoing, label = None, line = 1\<rparr>,
        \<lparr>rel_id = ''a--b:1:0'', sourceFile = ''a--b'', targetFile = ''c'',
          direction = Outgoing, label = None, line = 1\<rparr>]"
    by code_simp
  show "map (\<lambda>l. (link_source l, link_target l, curveOffset l))
       (make_links Map.empty
          [\<lparr>rel_id = ''a:1:0'', sourceFile = ''a'', targetFile = ''b--c'',
             direction = Outgoing, label = None, line = 1\<rparr>,
           \<lparr>rel_id = ''a--b:1:0'', sourceFile = ''a--b'', targetFile = ''c'',
             direction = Outgoing, label = None, line = 1\<rparr>])
     = [(''a'', ''b--c'', 0), (''a--b'', ''c'', 30)]"
    by (simp add: edge_key_def)
  show "map curveOffset
       (links (update
          \<lparr>nodes = [], links = [], width = 800, height = 600,
           existingFiles = {''a'', ''a--b''}, labelFilter = []\<rparr>
          (\<lambda>i. 0)
          [''a'', ''b--c'', ''a--b'', ''c'']
          [\<lparr>rel_id = ''a:1:0'', sourceFile = ''a'', targetFile = ''b--c'',
             direction = Outgoing, label = None, line = 1\<rparr>,
           \<lparr>rel_id = ''a--b:1:0'', sourceFile = ''a--b'', targetFile = ''c'',
             direction = Outgoing, label = None, line = 1\<rparr>]))
     = [0, 30]"
    by (simp add: update_def filter_by_label_def trim_def Let_def edge_key_def)
qed

section \<open>Normalisation of source and target\<close>

text \<open>
  C4 says that \<open>targetFile\<close> is the captured target trimmed and without its document
  extension, and never qualified by a path, as the comment on the field in the data model
  does (a resolved file name without the extension). The index strips the extension from
  the name of the source; the parser stores the trimmed target as it is written. A note
  \<^verbatim>\<open>Awal.md\<close> that declares \<^verbatim>\<open><<-+>>[[ Target.md ]]\<close> gets a relationship to
  \<^verbatim>\<open>Target.md\<close>, and one that declares \<^verbatim>\<open><<-+>>[[notes/Target]]\<close> a relationship to
  \<^verbatim>\<open>notes/Target\<close>.
\<close>

theorem target_not_normalised:
  "getRelationshipsForFile (reindexFile [] ''Awal.md'' ''<<-+>>[[ Target.md ]]'') ''Awal.md''
     = [\<lparr>rel_id = ''Awal:1:0'', sourceFile = ''Awal'', targetFile = ''Target.md'',
          direction = Outgoing, label = None, line = 1\<rparr>]
   \<and> getRelationshipsForFile (reindexFile [] ''Awal.md'' ''<<-+>>[[notes/Target]]'') ''Awal.md''
     = [\<lparr>rel_id = ''Awal:1:0'', sourceFile = ''Awal'', targetFile = ''notes/Target'',
          direction = Outgoing, label = None, line = 1\<rparr>]"
  by code_simp

end
